theory Spec2Isabelle
  imports Main "HOL-Library.Sublist" "HOL-Library.AList"
begin

section \<open>all-git: a shallow embedding of \<^verbatim>\<open>src/all-git.js\<close>\<close>

text \<open>
  The development follows the first (current) version of \<^verbatim>\<open>all-git.js\<close>.
  JavaScript strings are modelled as lists of characters, a character standing
  for a code unit below \<open>0x100\<close> (\<open>commonPrefix\<close> is polymorphic in the element
  type, so it covers all UTF-16 code units),
  numbers that count things as \<open>int\<close>, promises that reject as values of a
  sum type, and the outcome of every external \<^verbatim>\<open>git\<close> process as an
  input of the model.
\<close>

subsection \<open>String helpers of the JavaScript runtime\<close>

text \<open>\<^verbatim>\<open>s.split(sep)\<close> for a one-character separator: never the empty array.\<close>

fun split :: "char \<Rightarrow> string \<Rightarrow> string list" where
  "split sep [] = [[]]"
| "split sep (c # cs) =
     (if c = sep then [] # split sep cs
      else (case split sep cs of [] \<Rightarrow> [[c]] | w # ws \<Rightarrow> (c # w) # ws))"

text \<open>
  \<^verbatim>\<open>s.trim()\<close> strips the white space and the line terminators of ECMAScript
  from both ends. A character of the model is a code unit below \<open>0x100\<close>; of
  the code units that \<^verbatim>\<open>trim\<close> strips, these are the tab, the line feed, the
  vertical tab, the form feed, the carriage return, the space and the no-break
  space \<open>0xA0\<close> (the others, from \<open>U+1680\<close> to \<open>U+FEFF\<close>, are no characters of
  the model).
\<close>

definition isWhiteSpace :: "char \<Rightarrow> bool" where
  "isWhiteSpace c \<longleftrightarrow>
     c \<in> {CHR 0x09, CHR 0x0A, CHR 0x0B, CHR 0x0C, CHR 0x0D, CHR 0x20, CHR 0xA0}"

definition trim :: "string \<Rightarrow> string" where
  "trim s = rev (dropWhile isWhiteSpace (rev (dropWhile isWhiteSpace s)))"

subsection \<open>\<^verbatim>\<open>commonPrefix\<close>\<close>

text \<open>
  \<^verbatim>\<open>
  function commonPrefix(a, b) {
      let index = 0;
      while (index < a.length && index < b.length) {
          if (a[index] != b[index]) break;
          index++;
      }
      return a.slice(0, index);
  }
  \<close>
  The loop is the function \<open>commonPrefix_loop\<close> on the value of \<open>index\<close>; its
  result is the value of \<open>index\<close> when the loop is left.
\<close>

function commonPrefix_loop :: "'a list \<Rightarrow> 'a list \<Rightarrow> nat \<Rightarrow> nat" where
  "commonPrefix_loop a b index =
     (if index < length a \<and> index < length b
      then (if a ! index \<noteq> b ! index then index
            else commonPrefix_loop a b (index + 1))
      else index)"
  by pat_completeness auto
termination
  by (relation "measure (\<lambda>(a, b, index). length a - index)") auto

declare commonPrefix_loop.simps [simp del]

definition commonPrefix :: "'a list \<Rightarrow> 'a list \<Rightarrow> 'a list" where
  "commonPrefix a b = take (commonPrefix_loop a b 0) a"

text \<open>
  The accumulator of \<^verbatim>\<open>status\<close>, \<^verbatim>\<open>null\<close> before the first repository:
  \<^verbatim>\<open>commonRepositoryPrefix = commonPrefix(commonRepositoryPrefix ?? repo, repo)\<close>.
  The operator \<^verbatim>\<open>??\<close> replaces \<^verbatim>\<open>null\<close> only: an empty string stays.
\<close>

definition update_commonRepositoryPrefix :: "'a list option \<Rightarrow> 'a list \<Rightarrow> 'a list option" where
  "update_commonRepositoryPrefix commonRepositoryPrefix repo =
     Some (commonPrefix (case commonRepositoryPrefix of None \<Rightarrow> repo | Some p \<Rightarrow> p) repo)"

text \<open>The accumulator after the remote URLs \<open>repos\<close> have been seen, in this order.\<close>

definition commonRepositoryPrefix_of :: "'a list list \<Rightarrow> 'a list option" where
  "commonRepositoryPrefix_of repos =
     fold (\<lambda>repo acc. update_commonRepositoryPrefix acc repo) repos None"

subsection \<open>Outcomes of external processes\<close>

text \<open>
  A promisified \<^verbatim>\<open>execFile\<close> either resolves with the standard output of the
  process, or rejects with an error object that carries a message and the
  standard output read so far.
\<close>

datatype exec = Resolved (stdout: string) | Rejected (message: string) (stdout: string)

text \<open>
  What one repository answers to the queries of \<^verbatim>\<open>status\<close>, one field per
  \<^verbatim>\<open>execFile\<close> call of the callback, in the order of the source.
\<close>

record repo_io =
  git_status :: exec
  rev_parse_HEAD :: exec
  config_remote_origin_url :: exec
  git_fetch :: exec
  log_HEAD_upstream :: exec
  log_upstream_HEAD :: exec
  rev_parse_origin_HEAD :: exec
  log_HEAD_default :: exec
  log_default_HEAD :: exec

subsection \<open>Divergence cells\<close>

text \<open>
  The values the divergence cells of a row can hold: a JavaScript number, or one
  of the three string literals of the source, \<^verbatim>\<open>"!"\<close> (\<^verbatim>\<open>gitLogCount\<close> caught
  an error), \<^verbatim>\<open>""\<close> (no branch name) and \<^verbatim>\<open>"?"\<close> (no default branch).
\<close>

datatype count = Number int | Str_bang | Str_empty | Str_question

text \<open>
  \<^verbatim>\<open>v > 0\<close> converts a string operand to a number first: the empty string
  converts to \<open>0\<close>, \<^verbatim>\<open>"!"\<close> and \<^verbatim>\<open>"?"\<close> to \<^verbatim>\<open>NaN\<close> (here \<open>None\<close>), and every
  comparison with \<^verbatim>\<open>NaN\<close> is false.
\<close>

fun ToNumber :: "count \<Rightarrow> int option" where
  "ToNumber (Number n) = Some n"
| "ToNumber Str_bang = None"
| "ToNumber Str_empty = Some 0"
| "ToNumber Str_question = None"

definition gt0 :: "count \<Rightarrow> bool" where
  "gt0 v = (case ToNumber v of None \<Rightarrow> False | Some n \<Rightarrow> 0 < n)"

text \<open>The text of a cell (\<^verbatim>\<open>String(v)\<close>): decimal digits for a number.\<close>

fun digits :: "nat \<Rightarrow> string" where
  "digits n = (if n < 10 then [''0123456789'' ! n]
               else digits (n div 10) @ [''0123456789'' ! (n mod 10)])"

declare digits.simps [simp del]

fun ToString :: "count \<Rightarrow> string" where
  "ToString (Number n) = (if n < 0 then CHR ''-'' # digits (nat (- n)) else digits (nat n))"
| "ToString Str_bang = ''!''"
| "ToString Str_empty = []"
| "ToString Str_question = ''?''"

definition unknown :: "count \<Rightarrow> bool" where
  "unknown v \<longleftrightarrow> v = Str_bang \<or> v = Str_empty \<or> v = Str_question"

text \<open>
  \<^verbatim>\<open>
  async function gitLogCount(cwd, from, to) {
      try {
          return ((await execFile("git", ["log", "--oneline", `${from}..${to}`], { cwd }))
                  .stdout.split("\n").length - 1);
      } catch (e) { return "!"; }
  }
  \<close>
\<close>

definition gitLogCount :: "exec \<Rightarrow> count" where
  "gitLogCount e =
     (case e of
        Resolved out \<Rightarrow> Number (int (length (split (CHR 0x0A) out)) - 1)
      | Rejected _ _ \<Rightarrow> Str_bang)"

subsection \<open>The tally of file states\<close>

text \<open>
  \<^verbatim>\<open>new AutoMap(() => 0)\<close> of the package \<^verbatim>\<open>auto-creating-map\<close>: a \<^verbatim>\<open>Map\<close>
  (here an association list in insertion order, with one entry per key) whose
  \<^verbatim>\<open>get\<close> first stores the created default under a key that is absent.
\<close>

type_synonym AutoMap = "(string \<times> int) list"

definition AutoMap_get :: "AutoMap \<Rightarrow> string \<Rightarrow> int \<times> AutoMap" where
  "AutoMap_get m key =
     (case map_of m key of Some v \<Rightarrow> (v, m) | None \<Rightarrow> (0, m @ [(key, 0)]))"

definition AutoMap_set :: "AutoMap \<Rightarrow> string \<Rightarrow> int \<Rightarrow> AutoMap" where
  "AutoMap_set m key v = AList.update key v m"

definition AutoMap_size :: "AutoMap \<Rightarrow> int" where
  "AutoMap_size m = int (length m)"

text \<open>
  \<^verbatim>\<open>
  stdout.split("\0")
      .filter((line) => line.length > 2)
      .map((line) => [line.slice(0, 2), line.slice(3)])
      .forEach(([key]) => fileStatusCount.set(key, fileStatusCount.get(key) + 1));
  \<close>
\<close>

definition status_entries :: "string \<Rightarrow> (string \<times> string) list" where
  "status_entries out =
     map (\<lambda>line. (take 2 line, drop 3 line))
       (filter (\<lambda>line. length line > 2) (split (CHR 0x00) out))"

definition count_entry :: "string \<times> string \<Rightarrow> AutoMap \<Rightarrow> AutoMap" where
  "count_entry entry fileStatusCount =
     (case AutoMap_get fileStatusCount (fst entry) of
        (v, m) \<Rightarrow> AutoMap_set m (fst entry) (v + 1))"

definition count_status :: "string \<Rightarrow> AutoMap" where
  "count_status out = fold count_entry (status_entries out) []"

text \<open>\<^verbatim>\<open>let local = fileStatusCount.size > 0\<close>\<close>

definition local_changes :: "AutoMap \<Rightarrow> bool" where
  "local_changes fileStatusCount \<longleftrightarrow> AutoMap_size fileStatusCount > 0"

text \<open>
  The three reads for the display columns, in the order of the source, with the
  map as they leave it:
  \<^verbatim>\<open>newCount = get("??"); modifiedCount = get(" M"); deletedCount = get(" D")\<close>.
\<close>

definition read_counts :: "AutoMap \<Rightarrow> (int \<times> int \<times> int) \<times> AutoMap" where
  "read_counts fileStatusCount =
     (case AutoMap_get fileStatusCount ''??'' of (newCount, m1) \<Rightarrow>
      case AutoMap_get m1 '' M'' of (modifiedCount, m2) \<Rightarrow>
      case AutoMap_get m2 '' D'' of (deletedCount, m3) \<Rightarrow>
        ((newCount, modifiedCount, deletedCount), m3))"

subsection \<open>The recommended action\<close>

datatype action = ActCommit | ActResolve | ActPull | ActPush | ActMerge | ActPr | ActOk

text \<open>
  \<^verbatim>\<open>
  let action = local ? 'commit'
      : ahead > 0 && behind > 0 ? "resolve"
          : behind > 0 ? "pull"
              : ahead > 0 ? "push"
                  : behindDefault > 0 ? "merge"
                      : aheadDefault > 0 ? "pr"
                          : "ok";
  \<close>
\<close>

definition action_of :: "bool \<Rightarrow> count \<Rightarrow> count \<Rightarrow> count \<Rightarrow> count \<Rightarrow> action" where
  "action_of local ahead behind behindDefault aheadDefault =
     (if local then ActCommit
      else if gt0 ahead \<and> gt0 behind then ActResolve
      else if gt0 behind then ActPull
      else if gt0 ahead then ActPush
      else if gt0 behindDefault then ActMerge
      else if gt0 aheadDefault then ActPr
      else ActOk)"

subsection \<open>The callback of \<^verbatim>\<open>status\<close> for one repository\<close>

type_synonym path = "string list"

text \<open>
  A row of the table, one field per column of the header; the thirteenth
  element of the source's array, the explanation, is a text fixed by the action
  and is printed on a line of its own.
\<close>

record row =
  col_directory :: path
  col_A :: int
  col_M :: int
  col_D :: int
  col_repository :: string
  col_branch :: string
  col_fetch :: bool
  col_behind :: count
  col_ahead :: count
  col_behindDefault :: count
  col_aheadDefault :: count
  col_action :: action

text \<open>\<^verbatim>\<open>await getBranchName(cwd).catch((e) => "")\<close>, and the same for \<^verbatim>\<open>getRemoteDefault\<close>.\<close>

definition trimmed_or_empty :: "exec \<Rightarrow> string" where
  "trimmed_or_empty e = (case e of Resolved out \<Rightarrow> trim out | Rejected _ _ \<Rightarrow> [])"

text \<open>
  The callback passed to \<^verbatim>\<open>forEachRepo\<close>. It throws (\<open>Inl\<close>, with the message
  of the error) when \<^verbatim>\<open>git status\<close> rejects, the one call that is awaited with
  no \<^verbatim>\<open>catch\<close>; it reads and writes the shared \<^verbatim>\<open>commonRepositoryPrefix\<close>.
\<close>

definition status_repo ::
  "path \<Rightarrow> repo_io \<Rightarrow> string option \<Rightarrow> (string + row) \<times> string option" where
  "status_repo name io commonRepositoryPrefix =
     (case git_status io of
        Rejected msg _ \<Rightarrow> (Inl msg, commonRepositoryPrefix)
      | Resolved out \<Rightarrow>
          let fileStatusCount = count_status out;
              local = local_changes fileStatusCount;
              counts = fst (read_counts fileStatusCount);
              branch = trimmed_or_empty (rev_parse_HEAD io);
              repo = trim (stdout (config_remote_origin_url io));
              fetchStatus = (case git_fetch io of Resolved _ \<Rightarrow> True | Rejected _ _ \<Rightarrow> False);
              behind = (if branch \<noteq> [] then gitLogCount (log_HEAD_upstream io) else Str_empty);
              ahead = (if branch \<noteq> [] then gitLogCount (log_upstream_HEAD io) else Str_empty);
              originDefault = trimmed_or_empty (rev_parse_origin_HEAD io);
              behindDefault =
                (if originDefault \<noteq> [] then gitLogCount (log_HEAD_default io) else Str_question);
              aheadDefault =
                (if originDefault \<noteq> [] then gitLogCount (log_default_HEAD io) else Str_question)
          in (Inr \<lparr>col_directory = name,
                   col_A = fst counts,
                   col_M = fst (snd counts),
                   col_D = snd (snd counts),
                   col_repository = repo,
                   col_branch = branch,
                   col_fetch = fetchStatus,
                   col_behind = behind,
                   col_ahead = ahead,
                   col_behindDefault = behindDefault,
                   col_aheadDefault = aheadDefault,
                   col_action = action_of local ahead behind behindDefault aheadDefault\<rparr>,
              update_commonRepositoryPrefix commonRepositoryPrefix repo))"

subsection \<open>The decision procedure as the specification words it\<close>

text \<open>
  A state is \<open>(hasLocalChanges, upstreamBehind, upstreamAhead, defaultBehind,
  defaultAhead)\<close>. The rules are tried in order and the first whose condition
  holds decides; when none holds the action is \<open>ok\<close>.
\<close>

type_synonym decision_state = "bool \<times> count \<times> count \<times> count \<times> count"

definition decision_rules :: "((decision_state \<Rightarrow> bool) \<times> action) list" where
  "decision_rules =
     [(\<lambda>(l, ub, ua, db, da). l, ActCommit),
      (\<lambda>(l, ub, ua, db, da). gt0 ua \<and> gt0 ub, ActResolve),
      (\<lambda>(l, ub, ua, db, da). gt0 ub \<and> \<not> gt0 ua, ActPull),
      (\<lambda>(l, ub, ua, db, da). gt0 ua \<and> \<not> gt0 ub, ActPush),
      (\<lambda>(l, ub, ua, db, da). gt0 db, ActMerge),
      (\<lambda>(l, ub, ua, db, da). gt0 da, ActPr)]"

definition first_matching_rule :: "decision_state \<Rightarrow> action" where
  "first_matching_rule s =
     (case find (\<lambda>rule. fst rule s) decision_rules of
        Some rule \<Rightarrow> snd rule
      | None \<Rightarrow> ActOk)"

text \<open>The position of the first matching rule, from 0; 6 when none matches.\<close>

definition rule_index :: "decision_state \<Rightarrow> nat" where
  "rule_index s = length (takeWhile (\<lambda>rule. \<not> fst rule s) decision_rules)"

text \<open>
  Two states agree on the fields that the rules up to position \<open>k\<close> read: the
  local-changes flag for the first rule, the two upstream counts from the second
  rule on, the default-branch counts from the rules that compare them.
\<close>

fun relevant_agree :: "nat \<Rightarrow> decision_state \<Rightarrow> decision_state \<Rightarrow> bool" where
  "relevant_agree k (l, ub, ua, db, da) (l', ub', ua', db', da') \<longleftrightarrow>
     l = l' \<and> (k < 1 \<or> (ub = ub' \<and> ua = ua')) \<and> (k < 4 \<or> db = db') \<and> (k < 5 \<or> da = da')"

definition decide :: "decision_state \<Rightarrow> action" where
  "decide s = (case s of (l, ub, ua, db, da) \<Rightarrow> action_of l ua ub db da)"

text \<open>The number of entries of the status output that carry the code \<open>key\<close>.\<close>

definition entries_with :: "string \<Rightarrow> string \<Rightarrow> nat" where
  "entries_with key out = length (filter (\<lambda>e. fst e = key) (status_entries out))"

subsection \<open>The repository locator\<close>

text \<open>
  The part of the file system that \<^verbatim>\<open>findGit\<close> looks at: a directory with its
  entries in listing order, a directory whose listing is refused (\<^verbatim>\<open>readdir\<close>
  rejects), or an entry that is not a directory (\<^verbatim>\<open>dirEnt.isDirectory()\<close> is
  false: files and symbolic links).
\<close>

datatype node = File | Denied | Dir "(string \<times> node) list"

fun isDirectory :: "node \<Rightarrow> bool" where
  "isDirectory File = False"
| "isDirectory Denied = True"
| "isDirectory (Dir directories) = True"

datatype error = ReaddirError | TypeError | InvalidArgType | CommandError string

text \<open>
  Paths are relative to the directory the tool is started in and are kept as
  their list of segments, the empty list standing for \<^verbatim>\<open>"."\<close>. On such paths
  \<^verbatim>\<open>join(path, name)\<close> appends a segment, \<^verbatim>\<open>basename\<close> is the last segment and
  \<^verbatim>\<open>dirname\<close> drops it (the names \<^verbatim>\<open>readdir\<close> lists are single segments).
\<close>

definition basename :: "path \<Rightarrow> string" where
  "basename p = (if p = [] then ''.'' else last p)"

definition dirname :: "path \<Rightarrow> path" where
  "dirname p = butlast p"

definition join :: "path \<Rightarrow> string \<Rightarrow> path" where
  "join p n = p @ [n]"

text \<open>\<^verbatim>\<open>Promise.all\<close>: the results in order, or a rejection when a promise rejects.\<close>

fun Promise_all :: "('e + 'a) list \<Rightarrow> 'e + 'a list" where
  "Promise_all [] = Inr []"
| "Promise_all (Inl e # ps) = Inl e"
| "Promise_all (Inr x # ps) = (case Promise_all ps of Inl e \<Rightarrow> Inl e | Inr xs \<Rightarrow> Inr (x # xs))"

lemma size_entry: "e \<in> set ds \<Longrightarrow> size (snd e) < size (Dir ds)"
  by (induction ds) (auto simp: less_Suc_eq_le)

text \<open>
  \<^verbatim>\<open>
  async function findGit(path) {
      if (basename(path) == ".git") return [dirname(path)];
      let directories = await readdir(join(path), { withFileTypes: true });
      return (await Promise.all(
                  directories
                      .filter((dirEnt) => dirEnt.isDirectory())
                      .map((dirEnt) => findGit(join(path, dirEnt.name))))).flat();
  }
  \<close>
  The second argument is what the file system holds at \<open>path\<close>.
\<close>

function findGit :: "path \<Rightarrow> node \<Rightarrow> error + path list" where
  "findGit path node =
     (if basename path = ''.git'' then Inr [dirname path]
      else case node of
        Dir directories \<Rightarrow>
          (case Promise_all
                  (map (\<lambda>dirEnt. findGit (join path (fst dirEnt)) (snd dirEnt))
                     (filter (\<lambda>dirEnt. isDirectory (snd dirEnt)) directories)) of
             Inl e \<Rightarrow> Inl e
           | Inr found \<Rightarrow> Inr (concat found))
      | _ \<Rightarrow> Inl ReaddirError)"
  by pat_completeness auto
termination
  by (relation "measure (\<lambda>(path, node). size node)") (auto dest: size_entry)

declare findGit.simps [simp del]

text \<open>
  The directory at the relative path \<open>q\<close> below a node has a directory entry
  named \<^verbatim>\<open>.git\<close>, and no segment of \<open>q\<close> is \<^verbatim>\<open>.git\<close>.
\<close>

inductive repo_at :: "node \<Rightarrow> path \<Rightarrow> bool" where
  here: "(''.git'', g) \<in> set ds \<Longrightarrow> isDirectory g \<Longrightarrow> repo_at (Dir ds) []"
| below: "(n, t) \<in> set ds \<Longrightarrow> n \<noteq> ''.git'' \<Longrightarrow> repo_at t q \<Longrightarrow> repo_at (Dir ds) (n # q)"

text \<open>In every directory the names of the entries are distinct.\<close>

fun unique_names :: "node \<Rightarrow> bool" where
  "unique_names (Dir ds) = (distinct (map fst ds) \<and> (\<forall>e \<in> set ds. unique_names (snd e)))"
| "unique_names File = True"
| "unique_names Denied = True"

text \<open>Every directory that the walk lists can be listed.\<close>

fun listable :: "node \<Rightarrow> bool" where
  "listable (Dir ds) =
     (\<forall>e \<in> set ds. fst e = ''.git'' \<or> \<not> isDirectory (snd e) \<or> listable (snd e))"
| "listable File = False"
| "listable Denied = False"

definition example_tree :: node where
  "example_tree =
     Dir [(''a'', Dir [(''.git'', Dir [(''objects'', Dir [])]),
                       (''README'', File),
                       (''sub'', Dir [(''.git'', Dir []), (''x'', File)])]),
          (''b'', File),
          (''c'', Dir [])]"

subsection \<open>\<^verbatim>\<open>forEachRepo\<close> and \<^verbatim>\<open>status\<close>\<close>

text \<open>
  \<^verbatim>\<open>
  const forEachRepo = async (action) => {
      let gitDirectories = await findGit(".");
      return await Promise.all(
          gitDirectories.map(async (path) => {
              try { return await action(path, path); }
              catch (e) { console.error(path, e.message); }
          }));
  };
  \<close>
  A task whose action throws writes the path and the message to the error
  stream and resolves with \<^verbatim>\<open>undefined\<close> (\<open>None\<close>). The actions share a state
  (for \<^verbatim>\<open>status\<close>, the variable \<^verbatim>\<open>commonRepositoryPrefix\<close>); the tasks are run
  here in the order of the list.
\<close>

fun run_tasks ::
  "(path \<Rightarrow> 's \<Rightarrow> (string + 'r) \<times> 's) \<Rightarrow> path list \<Rightarrow> 's \<Rightarrow>
   'r option list \<times> 's \<times> (path \<times> string) list" where
  "run_tasks action [] s = ([], s, [])"
| "run_tasks action (path # paths) s =
     (case action path s of
        (Inr r, s') \<Rightarrow>
          (case run_tasks action paths s' of (rs, s'', err) \<Rightarrow> (Some r # rs, s'', err))
      | (Inl msg, s') \<Rightarrow>
          (case run_tasks action paths s' of (rs, s'', err) \<Rightarrow> (None # rs, s'', (path, msg) # err)))"

definition forEachRepo ::
  "(path \<Rightarrow> 's \<Rightarrow> (string + 'r) \<times> 's) \<Rightarrow> node \<Rightarrow> 's \<Rightarrow>
   error + 'r option list \<times> 's \<times> (path \<times> string) list" where
  "forEachRepo action root s =
     (case findGit [] root of
        Inl e \<Rightarrow> Inl e
      | Inr gitDirectories \<Rightarrow> Inr (run_tasks action gitDirectories s))"

text \<open>
  The lines of the table below the header: for every repository the row and,
  on a line of its own, the explanation of its action.
  \<^verbatim>\<open>
  rows = rows.flatMap(([name, newCount, modifiedCount, deletedCount, repo, branch,
                        fetchStatus, behind, ahead, behindDefault, aheadDefault,
                        action, detailedAction]) =>
      [[name, newCount, modifiedCount, deletedCount,
        repo.slice(commonRepositoryPrefix.length), branch, fetchStatus, behind, ahead,
        behindDefault, aheadDefault, action], [grey(detailedAction)]]);
  \<close>
  The parameter of the callback is an array pattern: on an element that is
  \<^verbatim>\<open>undefined\<close> the call throws a \<^verbatim>\<open>TypeError\<close>, and so does \<^verbatim>\<open>.length\<close> of
  \<^verbatim>\<open>null\<close>.
\<close>

datatype line = Cells row | Explanation action

fun flatMap_rows :: "string option \<Rightarrow> row option list \<Rightarrow> error + line list" where
  "flatMap_rows commonRepositoryPrefix [] = Inr []"
| "flatMap_rows commonRepositoryPrefix (None # rows) = Inl TypeError"
| "flatMap_rows commonRepositoryPrefix (Some r # rows) =
     (case commonRepositoryPrefix of
        None \<Rightarrow> Inl TypeError
      | Some p \<Rightarrow>
          (case flatMap_rows commonRepositoryPrefix rows of
             Inl e \<Rightarrow> Inl e
           | Inr ls \<Rightarrow>
               Inr (Cells (r\<lparr>col_repository := drop (length p) (col_repository r)\<rparr>)
                    # Explanation (col_action r) # ls)))"

text \<open>
  The file system below the starting directory and, for every directory, what
  \<^verbatim>\<open>git\<close> answers there.
\<close>

record world =
  tree :: node
  git :: "path \<Rightarrow> repo_io"

text \<open>
  What a run of \<^verbatim>\<open>status\<close> leaves: the table and the repository prefix printed
  on the output stream (\<open>None\<close> when nothing is printed), the lines of
  \<^verbatim>\<open>forEachRepo\<close> on the error stream, and the value the function returns or the
  error it throws.
\<close>

record status_run =
  printed :: "(line list \<times> string option) option"
  errors :: "(path \<times> string) list"
  returned :: "error + int"

definition status :: "world \<Rightarrow> status_run" where
  "status w =
     (case forEachRepo (\<lambda>path. status_repo path (git w path)) (tree w) None of
        Inl e \<Rightarrow> \<lparr>printed = None, errors = [], returned = Inl e\<rparr>
      | Inr (rows, commonRepositoryPrefix, err) \<Rightarrow>
          (case flatMap_rows commonRepositoryPrefix rows of
             Inl e \<Rightarrow> \<lparr>printed = None, errors = err, returned = Inl e\<rparr>
           | Inr lines \<Rightarrow>
               \<lparr>printed = Some (lines, commonRepositoryPrefix), errors = err,
                returned = Inr 0\<rparr>))"

text \<open>The remote URL of a repository as \<^verbatim>\<open>status\<close> reads it.\<close>

definition remote_url :: "repo_io \<Rightarrow> string" where
  "remote_url io = trim (stdout (config_remote_origin_url io))"

text \<open>
  The common prefix in the words of the specification: the pairwise reduction
  over the remote URLs that are not empty.
\<close>

definition spec_CommonPrefix :: "string list \<Rightarrow> string option" where
  "spec_CommonPrefix urls = commonRepositoryPrefix_of (filter (\<lambda>url. url \<noteq> []) urls)"

text \<open>The repository cells of the rows of a table, in order.\<close>

fun repository_cells :: "line list \<Rightarrow> string list" where
  "repository_cells [] = []"
| "repository_cells (Cells r # ls) = col_repository r # repository_cells ls"
| "repository_cells (Explanation a # ls) = repository_cells ls"

fun directory_cells :: "line list \<Rightarrow> path list" where
  "directory_cells [] = []"
| "directory_cells (Cells r # ls) = col_directory r # directory_cells ls"
| "directory_cells (Explanation a # ls) = directory_cells ls"

subsection \<open>The command dispatcher\<close>

datatype command =
  CmdStatus | CmdRun | CmdCommit | CmdBranch | CmdCheckout | CmdPull | CmdPush | CmdHelp

text \<open>
  \<^verbatim>\<open>let commands = { status, run, commit, branch, checkout, pull, push, help }\<close>
  is an object literal, so \<^verbatim>\<open>commands[command]\<close> also finds what the object
  inherits from \<^verbatim>\<open>Object.prototype\<close>: its methods, and under \<^verbatim>\<open>__proto__\<close> the
  prototype object itself, which is not callable. A missing argument is
  \<^verbatim>\<open>undefined\<close> and reads the key \<^verbatim>\<open>"undefined"\<close>.
\<close>

datatype property = Own command | PrototypeMethod string | PrototypeObject

definition Object_prototype_methods :: "string list" where
  "Object_prototype_methods =
     [''constructor'', ''hasOwnProperty'', ''isPrototypeOf'', ''propertyIsEnumerable'',
      ''toLocaleString'', ''toString'', ''valueOf'', ''__defineGetter__'',
      ''__defineSetter__'', ''__lookupGetter__'', ''__lookupSetter__'']"

definition commands_get :: "string option \<Rightarrow> property option" where
  "commands_get command =
     (let key = (case command of None \<Rightarrow> ''undefined'' | Some k \<Rightarrow> k) in
      case map_of [(''status'', CmdStatus), (''run'', CmdRun), (''commit'', CmdCommit),
                   (''branch'', CmdBranch), (''checkout'', CmdCheckout), (''pull'', CmdPull),
                   (''push'', CmdPush), (''help'', CmdHelp)] key of
        Some c \<Rightarrow> Some (Own c)
      | None \<Rightarrow>
          if key \<in> set Object_prototype_methods then Some (PrototypeMethod key)
          else if key = ''__proto__'' then Some PrototypeObject
          else None)"

text \<open>
  A value a call returns, as far as the exit code depends on it: \<^verbatim>\<open>undefined\<close>,
  an integer, or any other value (an object, a string, a boolean).
\<close>

datatype jsvalue = Undefined | Num int | Other

text \<open>
  What the commands other than \<^verbatim>\<open>status\<close> do when called is an input: the
  error they throw, if any (they have no \<^verbatim>\<open>return\<close> statement, so they return
  \<^verbatim>\<open>undefined\<close> otherwise); so is what an inherited method returns or throws.
\<close>

record behaviour =
  run_command :: "command \<Rightarrow> string list \<Rightarrow> error option"
  run_method :: "string \<Rightarrow> string list \<Rightarrow> error + jsvalue"

record exit =
  callee :: property
  reported :: "error option"
  exitCode :: jsvalue

text \<open>
  \<^verbatim>\<open>
  (async (command, ...args) => {
      return await (commands[command] || help)(...args) ?? 0;
  })(...process.argv.slice(2))
      .catch(console.error)
      .then((code = 1) => (process.exitCode = code));
  \<close>
  The setter of \<^verbatim>\<open>process.exitCode\<close> takes an integer (Node.js 20 and later):
  on any other value it throws \<^verbatim>\<open>ERR_INVALID_ARG_TYPE\<close> in the callback of
  \<^verbatim>\<open>then\<close>, where nothing catches it, so that the runtime prints the error and
  the process ends with exit code 1.
\<close>

definition call :: "world \<Rightarrow> behaviour \<Rightarrow> property \<Rightarrow> string list \<Rightarrow> error + jsvalue" where
  "call w b f args =
     (case f of
        Own CmdStatus \<Rightarrow> (case returned (status w) of Inl e \<Rightarrow> Inl e | Inr n \<Rightarrow> Inr (Num n))
      | Own c \<Rightarrow> (case run_command b c args of Some e \<Rightarrow> Inl e | None \<Rightarrow> Inr Undefined)
      | PrototypeMethod m \<Rightarrow> run_method b m args
      | PrototypeObject \<Rightarrow> Inl TypeError)"

definition main :: "world \<Rightarrow> behaviour \<Rightarrow> string option \<Rightarrow> string list \<Rightarrow> exit" where
  "main w b command args =
     (let f = (case commands_get command of Some p \<Rightarrow> p | None \<Rightarrow> Own CmdHelp) in
      case call w b f args of
        Inl e \<Rightarrow> \<lparr>callee = f, reported = Some e, exitCode = Num 1\<rparr>
      | Inr Undefined \<Rightarrow> \<lparr>callee = f, reported = None, exitCode = Num 0\<rparr>
      | Inr (Num code) \<Rightarrow> \<lparr>callee = f, reported = None, exitCode = Num code\<rparr>
      | Inr Other \<Rightarrow> \<lparr>callee = f, reported = Some InvalidArgType, exitCode = Num 1\<rparr>)"

subsection \<open>Example inputs\<close>

text \<open>
  A clean repository on branch \<open>m\<close>, one commit behind its upstream; the count
  of the commits ahead fails, and so does the query for the default branch,
  which prints the name it was given before it fails, as \<^verbatim>\<open>git\<close> does.
\<close>

definition example_io :: repo_io where
  "example_io = \<lparr>git_status = Resolved [],
          rev_parse_HEAD = Resolved [CHR ''m'', CHR 0x0A],
          config_remote_origin_url = Resolved ''git@host:org/a.git'',
          git_fetch = Resolved [],
          log_HEAD_upstream = Resolved [CHR ''c'', CHR 0x0A],
          log_upstream_HEAD = Rejected ''fatal'' [],
          rev_parse_origin_HEAD = Rejected ''fatal'' (''origin/HEAD'' @ [CHR 0x0A]),
          log_HEAD_default = Resolved [],
          log_default_HEAD = Resolved []\<rparr>"

text \<open>
  A repository in which \<^verbatim>\<open>git rev-parse --abbrev-ref HEAD\<close> fails, printing the
  name it was given, and one whose default branch resolves while the two counts
  against it fail.
\<close>

definition example_io_no_branch :: repo_io where
  "example_io_no_branch =
     example_io\<lparr>rev_parse_HEAD := Rejected ''fatal'' (''HEAD'' @ [CHR 0x0A])\<rparr>"

definition example_io_default_fails :: repo_io where
  "example_io_default_fails =
     example_io\<lparr>rev_parse_origin_HEAD := Resolved (''origin/main'' @ [CHR 0x0A]),
                log_HEAD_default := Rejected ''fatal'' [],
                log_default_HEAD := Rejected ''fatal'' []\<rparr>"

definition example_io_changes :: repo_io where
  "example_io_changes = example_io\<lparr>git_status := Resolved (''?? a'' @ [CHR 0x00] @ '' M b'' @ [CHR 0x00] @ ''?? c'' @ [CHR 0x00])\<rparr>"

definition example_io_untracked :: repo_io where
  "example_io_untracked = example_io\<lparr>git_status := Resolved (''?? '' @ ''new.txt'' @ [CHR 0x00])\<rparr>"

text \<open>The \<^verbatim>\<open>git status\<close> query of a repository resolves.\<close>

definition status_resolves :: "repo_io \<Rightarrow> bool" where
  "status_resolves io = (case git_status io of Resolved _ \<Rightarrow> True | Rejected _ _ \<Rightarrow> False)"

text \<open>Two repositories with the remote URLs of the specification's scenario.\<close>

definition example_world :: world where
  "example_world =
     \<lparr>tree = Dir [(''a'', Dir [(''.git'', Dir [])]), (''b'', Dir [(''.git'', Dir [])])],
      git = (\<lambda>path. if path = [''b'']
                     then example_io\<lparr>config_remote_origin_url := Resolved ''git@host:org/b.git''\<rparr>
                     else example_io)\<rparr>"

text \<open>The same with a third repository that has no remote: \<^verbatim>\<open>git config --get\<close> exits with code 1 and prints nothing.\<close>

definition example_world_no_remote :: world where
  "example_world_no_remote =
     \<lparr>tree = Dir [(''a'', Dir [(''.git'', Dir [])]), (''b'', Dir [(''.git'', Dir [])]),
                  (''c'', Dir [(''.git'', Dir [])])],
      git = (\<lambda>path. if path = [''b'']
                     then example_io\<lparr>config_remote_origin_url := Resolved ''git@host:org/b.git''\<rparr>
                     else if path = [''c'']
                     then example_io\<lparr>config_remote_origin_url := Rejected ''exit code 1'' []\<rparr>
                     else example_io)\<rparr>"

text \<open>Two repositories, the second of which refuses \<^verbatim>\<open>git status\<close>.\<close>

definition example_world_failure :: world where
  "example_world_failure =
     \<lparr>tree = Dir [(''a'', Dir [(''.git'', Dir [])]), (''b'', Dir [(''.git'', Dir [])])],
      git = (\<lambda>path. if path = [''b'']
                     then example_io\<lparr>git_status := Rejected ''permission denied'' []\<rparr>
                     else example_io)\<rparr>"

text \<open>Commands that complete, and inherited methods that return some object.\<close>

definition example_behaviour :: behaviour where
  "example_behaviour = \<lparr>run_command = (\<lambda>c args. None), run_method = (\<lambda>m args. Inr Other)\<rparr>"

subsection \<open>Facts about \<open>commonPrefix\<close>\<close>

lemma commonPrefix_loop_eq:
  "index \<le> length a \<Longrightarrow> index \<le> length b \<Longrightarrow>
   commonPrefix_loop a b index =
     index + length (longest_common_prefix (drop index a) (drop index b))"
proof (induction a b index rule: commonPrefix_loop.induct)
  case (1 a b index)
  show ?case
  proof (cases "index < length a \<and> index < length b")
    case False
    with "1.prems" have "drop index a = [] \<or> drop index b = []" by auto
    then have "longest_common_prefix (drop index a) (drop index b) = []" by auto
    with False show ?thesis by (subst commonPrefix_loop.simps) auto
  next
    case True
    then have da: "drop index a = a ! index # drop (Suc index) a"
      and db: "drop index b = b ! index # drop (Suc index) b"
      by (simp_all add: Cons_nth_drop_Suc)
    show ?thesis
    proof (cases "a ! index = b ! index")
      case False
      with True da db show ?thesis by (subst commonPrefix_loop.simps) simp
    next
      case eq: True
      with True have "commonPrefix_loop a b (index + 1) =
        index + 1 + length (longest_common_prefix (drop (index + 1) a) (drop (index + 1) b))"
        by (intro "1.IH") auto
      with True eq da db show ?thesis by (subst commonPrefix_loop.simps) simp
    qed
  qed
qed

lemma commonPrefix_longest: "commonPrefix a b = longest_common_prefix a b"
proof -
  have "commonPrefix a b = take (length (longest_common_prefix a b)) a"
    by (simp add: commonPrefix_def commonPrefix_loop_eq)
  also have "\<dots> = longest_common_prefix a b"
  proof -
    obtain zs where "a = longest_common_prefix a b @ zs"
      using longest_common_prefix_prefix1 [of a b] by (auto simp: prefix_def)
    then have "take (length (longest_common_prefix a b)) a =
        take (length (longest_common_prefix a b)) (longest_common_prefix a b @ zs)"
      by simp
    then show ?thesis by simp
  qed
  finally show ?thesis .
qed

lemma prefix_commonPrefix_iff:
  "prefix p (commonPrefix a b) \<longleftrightarrow> prefix p a \<and> prefix p b"
  unfolding commonPrefix_longest
  by (meson longest_common_prefix_max_prefix longest_common_prefix_prefix1
      longest_common_prefix_prefix2 prefix_order.trans)

lemma same_prefixes_eq: "(\<And>p. prefix p x \<longleftrightarrow> prefix p y) \<Longrightarrow> x = y"
  by (meson prefix_order.antisym prefix_order.refl)

lemma commonPrefix_commute: "commonPrefix a b = commonPrefix b a"
  by (rule same_prefixes_eq) (auto simp: prefix_commonPrefix_iff)

lemma commonPrefix_assoc:
  "commonPrefix (commonPrefix a b) c = commonPrefix a (commonPrefix b c)"
  by (rule same_prefixes_eq) (auto simp: prefix_commonPrefix_iff)

lemma commonPrefix_idem: "commonPrefix a a = a"
  by (rule same_prefixes_eq) (auto simp: prefix_commonPrefix_iff)

lemma commonPrefix_Cons_neq: "x \<noteq> y \<Longrightarrow> commonPrefix (x # a) (y # b) = []"
  by (simp add: commonPrefix_longest)

lemma commonPrefix_Nil [simp]: "commonPrefix a [] = []" "commonPrefix [] b = []"
  by (simp_all add: commonPrefix_longest)

lemma fold_update_Some:
  "\<exists>r. fold (\<lambda>repo acc. update_commonRepositoryPrefix acc repo) repos (Some q) = Some r \<and>
       (\<forall>p. prefix p r \<longleftrightarrow> prefix p q \<and> (\<forall>u \<in> set repos. prefix p u))"
proof (induction repos arbitrary: q)
  case Nil
  then show ?case by simp
next
  case (Cons u repos)
  from Cons.IH [of "commonPrefix q u"] show ?case
    by (auto simp: update_commonRepositoryPrefix_def prefix_commonPrefix_iff)
qed

lemma commonRepositoryPrefix_of_Nil: "commonRepositoryPrefix_of [] = None"
  by (simp add: commonRepositoryPrefix_of_def)

lemma commonRepositoryPrefix_of_prefixes:
  assumes "repos \<noteq> []"
  shows "\<exists>r. commonRepositoryPrefix_of repos = Some r \<and>
       (\<forall>p. prefix p r \<longleftrightarrow> (\<forall>u \<in> set repos. prefix p u))"
proof -
  from assms obtain u us where repos: "repos = u # us" by (cases repos) auto
  from fold_update_Some [of us u] show ?thesis
    by (auto simp: repos commonRepositoryPrefix_of_def update_commonRepositoryPrefix_def
        commonPrefix_idem)
qed

lemma commonRepositoryPrefix_of_set:
  assumes "set xs = set ys"
  shows "commonRepositoryPrefix_of xs = commonRepositoryPrefix_of ys"
proof (cases "xs = []")
  case True
  with assms show ?thesis by simp
next
  case False
  with assms have ys: "ys \<noteq> []" by auto
  from commonRepositoryPrefix_of_prefixes [OF False] obtain r where
    r: "commonRepositoryPrefix_of xs = Some r" "\<And>p. prefix p r \<longleftrightarrow> (\<forall>u \<in> set xs. prefix p u)"
    by blast
  from commonRepositoryPrefix_of_prefixes [OF ys] obtain s where
    s: "commonRepositoryPrefix_of ys = Some s" "\<And>p. prefix p s \<longleftrightarrow> (\<forall>u \<in> set ys. prefix p u)"
    by blast
  have "r = s" by (rule same_prefixes_eq) (simp add: r(2) s(2) assms)
  with r(1) s(1) show ?thesis by simp
qed

subsection \<open>Facts about the decision and the cells\<close>

lemma gt0_unknown: "unknown u \<Longrightarrow> \<not> gt0 u"
  by (auto simp: unknown_def gt0_def)

lemma decide_first_matching: "decide s = first_matching_rule s"
  by (cases s) (simp add: decide_def action_of_def first_matching_rule_def decision_rules_def)

lemma rule_index_cases:
  "rule_index (l, ub, ua, db, da) =
     (if l then 0 else if gt0 ua \<and> gt0 ub then 1 else if gt0 ub then 2
      else if gt0 ua then 3 else if gt0 db then 4 else if gt0 da then 5 else 6)"
  by (simp add: rule_index_def decision_rules_def)

lemma decide_irrelevant:
  assumes "relevant_agree (rule_index s) s s'"
  shows "decide s' = decide s"
proof -
  obtain l ub ua db da where s: "s = (l, ub, ua, db, da)" by (cases s)
  obtain l' ub' ua' db' da' where s': "s' = (l', ub', ua', db', da')" by (cases s')
  from assms have l: "l' = l" by (simp add: s s')
  show ?thesis
  proof (cases l)
    case True
    with l show ?thesis by (simp add: s s' decide_def action_of_def)
  next
    case False
    with assms have u: "ub' = ub" "ua' = ua"
      by (simp_all add: s s' rule_index_cases split: if_splits)
    show ?thesis
    proof (cases "gt0 ua \<or> gt0 ub")
      case True
      with l u show ?thesis by (auto simp: s s' decide_def action_of_def)
    next
      case nu: False
      show ?thesis
      proof (cases "gt0 db")
        case True
        with assms False nu have "db' = db" by (simp add: s s' rule_index_cases)
        with True l u show ?thesis by (simp add: s s' decide_def action_of_def)
      next
        case nd: False
        with assms False nu have "db' = db" "da' = da"
          by (simp_all add: s s' rule_index_cases split: if_splits)
        with l u show ?thesis by (simp add: s s')
      qed
    qed
  qed
qed

lemma digits_nonempty: "digits n \<noteq> []"
  by (subst digits.simps) simp

lemma digits_set: "c \<in> set (digits n) \<Longrightarrow> c \<in> set ''0123456789''"
proof (induction n rule: digits.induct)
  case (1 n)
  have small: "''0123456789'' ! k \<in> set ''0123456789''" if "k < 10" for k :: nat
    by (rule nth_mem) (use that in simp)
  show ?case
  proof (cases "n < 10")
    case True
    with "1.prems" small [of n] show ?thesis by (subst (asm) digits.simps) simp
  next
    case False
    with "1.prems" have "c \<in> set (digits (n div 10)) \<or> c = ''0123456789'' ! (n mod 10)"
      by (subst (asm) digits.simps) auto
    with "1.IH" False small [of "n mod 10"] show ?thesis by auto
  qed
qed

lemma ToString_unknown:
  assumes "unknown u" "0 \<le> n"
  shows "ToString u \<noteq> ToString (Number n)"
proof
  assume eq: "ToString u = ToString (Number n)"
  with assms(2) have d: "ToString u = digits (nat n)" by simp
  with digits_nonempty [of "nat n"] have "u \<noteq> Str_empty" by auto
  with assms(1) have "ToString u = ''!'' \<or> ToString u = ''?''" by (auto simp: unknown_def)
  then have "CHR ''!'' \<in> set (digits (nat n)) \<or> CHR ''?'' \<in> set (digits (nat n))"
    unfolding d [symmetric] by auto
  with digits_set show False by fastforce
qed

lemma split_nonempty: "split sep s \<noteq> []"
  by (induction s) (auto split: list.splits)

lemma gitLogCount_cases: "unknown (gitLogCount e) \<or> (\<exists>n\<ge>0. gitLogCount e = Number n)"
  using split_nonempty by (cases e) (auto simp: gitLogCount_def unknown_def Suc_le_eq)

subsection \<open>Facts about the tally\<close>

lemma map_of_count_entry:
  "map_of (count_entry e m) =
     (map_of m)(fst e \<mapsto> (case map_of m (fst e) of None \<Rightarrow> 1 | Some v \<Rightarrow> v + 1))"
  by (auto simp: count_entry_def AutoMap_get_def AutoMap_set_def update_conv' fun_eq_iff
      map_add_def split: option.splits)

lemma distinct_count_entry:
  "distinct (map fst m) \<Longrightarrow> distinct (map fst (count_entry e m))"
  by (auto simp: count_entry_def AutoMap_get_def AutoMap_set_def distinct_update
      split: option.splits dest: map_of_eq_None_iff [THEN iffD1] intro!: distinct_update)

lemma count_entry_nonempty: "count_entry e m \<noteq> []"
  by (simp add: count_entry_def AutoMap_get_def AutoMap_set_def split: option.splits)

lemma fold_count_entry_nonempty: "es \<noteq> [] \<or> m \<noteq> [] \<Longrightarrow> fold count_entry es m \<noteq> []"
  by (induction es arbitrary: m) (auto simp: count_entry_nonempty)

lemma fold_count_entry:
  "distinct (map fst m) \<Longrightarrow>
   distinct (map fst (fold count_entry es m)) \<and>
   map_of (fold count_entry es m) k =
     (case map_of m k of
        None \<Rightarrow> (if filter (\<lambda>e. fst e = k) es = [] then None
                 else Some (int (length (filter (\<lambda>e. fst e = k) es))))
      | Some v \<Rightarrow> Some (v + int (length (filter (\<lambda>e. fst e = k) es))))"
proof (induction es arbitrary: m)
  case Nil
  then show ?case by (simp split: option.splits)
next
  case (Cons e es)
  from Cons.IH [OF distinct_count_entry [OF Cons.prems], of e] show ?case
    by (auto simp: map_of_count_entry split: option.splits)
qed

lemma count_status_distinct: "distinct (map fst (count_status out))"
  using fold_count_entry [of "[]"] by (simp add: count_status_def)

lemma map_of_count_status:
  "map_of (count_status out) key =
     (if entries_with key out = 0 then None else Some (int (entries_with key out)))"
  using fold_count_entry [of "[]" "status_entries out" key]
  by (simp add: count_status_def entries_with_def)

lemma count_status_values:
  assumes "(key, v) \<in> set (count_status out)"
  shows "v = int (entries_with key out) \<and> 0 < v"
proof -
  from assms count_status_distinct have "map_of (count_status out) key = Some v" by simp
  then show ?thesis by (simp add: map_of_count_status split: if_splits)
qed

lemma count_status_empty_iff: "count_status out = [] \<longleftrightarrow> status_entries out = []"
  using fold_count_entry_nonempty [of "status_entries out" "[]"]
  by (auto simp: count_status_def)

lemma local_changes_iff: "local_changes m \<longleftrightarrow> m \<noteq> []"
  by (simp add: local_changes_def AutoMap_size_def)

lemma AutoMap_get_value:
  "fst (AutoMap_get m key) = (case map_of m key of None \<Rightarrow> 0 | Some v \<Rightarrow> v)"
  by (simp add: AutoMap_get_def split: option.splits)

lemma map_of_AutoMap_get:
  "map_of (snd (AutoMap_get m key)) k =
     (if k = key \<and> map_of m key = None then Some 0 else map_of m k)"
  by (auto simp: AutoMap_get_def map_add_def split: option.splits)

lemma read_counts_values:
  "fst (read_counts m) =
     (case map_of m ''??'' of None \<Rightarrow> 0 | Some v \<Rightarrow> v,
      case map_of m '' M'' of None \<Rightarrow> 0 | Some v \<Rightarrow> v,
      case map_of m '' D'' of None \<Rightarrow> 0 | Some v \<Rightarrow> v)"
proof -
  obtain a m1 where 1: "AutoMap_get m ''??'' = (a, m1)" by (cases "AutoMap_get m ''??''")
  obtain b m2 where 2: "AutoMap_get m1 '' M'' = (b, m2)" by (cases "AutoMap_get m1 '' M''")
  obtain c m3 where 3: "AutoMap_get m2 '' D'' = (c, m3)" by (cases "AutoMap_get m2 '' D''")
  from 1 have a: "a = (case map_of m ''??'' of None \<Rightarrow> 0 | Some v \<Rightarrow> v)"
    and m1: "\<And>k. map_of m1 k = (if k = ''??'' \<and> map_of m ''??'' = None then Some 0 else map_of m k)"
    using AutoMap_get_value [of m "''??''"] map_of_AutoMap_get [of m "''??''"] by simp_all
  from 2 have b: "b = (case map_of m1 '' M'' of None \<Rightarrow> 0 | Some v \<Rightarrow> v)"
    and m2: "\<And>k. map_of m2 k = (if k = '' M'' \<and> map_of m1 '' M'' = None then Some 0 else map_of m1 k)"
    using AutoMap_get_value [of m1 "'' M''"] map_of_AutoMap_get [of m1 "'' M''"] by simp_all
  from 3 have c: "c = (case map_of m2 '' D'' of None \<Rightarrow> 0 | Some v \<Rightarrow> v)"
    using AutoMap_get_value [of m2 "'' D''"] by simp
  show ?thesis
    by (simp add: read_counts_def 1 2 3 a b c m1 m2)
qed

lemma read_counts_nonempty: "snd (read_counts m) \<noteq> []"
  by (auto simp: read_counts_def AutoMap_get_def split: option.splits prod.splits)

lemma split_no_sep: "sep \<notin> set s \<Longrightarrow> split sep s = [s]"
  by (induction s) auto

lemma split_append_sep: "sep \<notin> set s \<Longrightarrow> split sep (s @ sep # t) = s # split sep t"
  by (induction s) auto

lemma untracked_only:
  "CHR 0x00 \<notin> set file \<Longrightarrow> count_status (''?? '' @ file @ [CHR 0x00]) = [(''??'', 1)]"
  using split_append_sep [of "CHR 0x00" "''?? '' @ file" "[]"]
  by (simp add: count_status_def status_entries_def count_entry_def AutoMap_get_def AutoMap_set_def)

subsection \<open>Claims about \<open>commonPrefix\<close>\<close>

text \<open>
  Claim C5. The pairwise \<open>commonPrefix\<close> is associative, commutative and
  idempotent; the accumulated prefix of a collection of strings does not depend
  on the order (nor on the multiplicity) in which the strings are reduced; for
  a single string it is that string; two strings whose first characters differ
  have the empty prefix, and so has every collection that holds two such strings.
\<close>

theorem commonPrefix_semilattice:
  "commonPrefix (commonPrefix a b) c = commonPrefix a (commonPrefix b c)
   \<and> commonPrefix a b = commonPrefix b a
   \<and> commonPrefix a a = a
   \<and> (set xs = set ys \<longrightarrow> commonRepositoryPrefix_of xs = commonRepositoryPrefix_of ys)
   \<and> commonRepositoryPrefix_of [a] = Some a
   \<and> (x \<noteq> y \<longrightarrow> commonPrefix (x # u) (y # v) = [])
   \<and> (x \<noteq> y \<and> x # u \<in> set xs \<and> y # v \<in> set xs \<longrightarrow> commonRepositoryPrefix_of xs = Some [])"
proof -
  have single: "commonRepositoryPrefix_of [a] = Some a"
    by (simp add: commonRepositoryPrefix_of_def update_commonRepositoryPrefix_def commonPrefix_idem)
  have two: "commonRepositoryPrefix_of xs = Some []"
    if "x \<noteq> y" "x # u \<in> set xs" "y # v \<in> set xs"
  proof -
    from that have "xs \<noteq> []" by auto
    from commonRepositoryPrefix_of_prefixes [OF this] obtain r where
      r: "commonRepositoryPrefix_of xs = Some r" "\<And>p. prefix p r \<longleftrightarrow> (\<forall>w \<in> set xs. prefix p w)"
      by blast
    have "prefix r r" by simp
    with r(2) that have "prefix r (x # u)" "prefix r (y # v)" by blast+
    with that(1) have "r = []" by (cases r) auto
    with r(1) show ?thesis by simp
  qed
  show ?thesis
    using commonPrefix_assoc [of a b c] commonPrefix_commute [of a b] commonPrefix_idem [of a]
      commonRepositoryPrefix_of_set [of xs ys] single commonPrefix_Cons_neq [of x y u v] two
    by blast
qed

theorem commonPrefix_semilattice_witness:
  "set [''ab'', ''ac'', ''ab''] = set [''ac'', ''ab'']
   \<and> commonRepositoryPrefix_of [''ab'', ''ac'', ''ab''] = commonRepositoryPrefix_of [''ac'', ''ab'']
   \<and> commonRepositoryPrefix_of [''ac'', ''ab''] = Some ''a''
   \<and> CHR ''x'' \<noteq> CHR ''y''
   \<and> commonPrefix ''xa'' ''ya'' = ''''
   \<and> ''xa'' \<in> set [''xa'', ''xb'', ''ya'']
   \<and> ''ya'' \<in> set [''xa'', ''xb'', ''ya'']
   \<and> commonRepositoryPrefix_of [''xa'', ''xb'', ''ya''] = Some ''''"
proof -
  have s: "set [''ab'', ''ac'', ''ab''] = set [''ac'', ''ab'']" by auto
  have n: "CHR ''x'' \<noteq> CHR ''y''" by simp
  have m: "''xa'' \<in> set [''xa'', ''xb'', ''ya'']" "''ya'' \<in> set [''xa'', ''xb'', ''ya'']"
    by simp_all
  have v: "commonRepositoryPrefix_of [''ac'', ''ab''] = Some ''a''"
    by (simp add: commonRepositoryPrefix_of_def update_commonRepositoryPrefix_def
        commonPrefix_longest)
  from commonPrefix_semilattice
    [of "''a''" "''b''" "''c''" "[''ab'', ''ac'', ''ab'']" "[''ac'', ''ab'']"
        "CHR ''x''" "CHR ''y''" "''a''" "''a''"]
  have a: "commonRepositoryPrefix_of [''ab'', ''ac'', ''ab''] = commonRepositoryPrefix_of [''ac'', ''ab'']"
    and b: "commonPrefix ''xa'' ''ya'' = ''''"
    using s n by blast+
  from commonPrefix_semilattice
    [of "''a''" "''b''" "''c''" "[''xa'', ''xb'', ''ya'']" "[''xa'', ''xb'', ''ya'']"
        "CHR ''x''" "CHR ''y''" "''a''" "''a''"]
  have c: "commonRepositoryPrefix_of [''xa'', ''xb'', ''ya''] = Some ''''"
    using n m by blast
  from s n m v a b c show ?thesis by blast
qed

subsection \<open>Claims about the decision, the cells and the tally\<close>

lemma status_repo_Resolved:
  assumes "git_status io = Resolved out"
  shows "\<exists>r. status_repo name io acc =
           (Inr r, update_commonRepositoryPrefix acc (trim (stdout (config_remote_origin_url io)))) \<and>
         col_directory r = name \<and>
         col_A r = fst (fst (read_counts (count_status out))) \<and>
         col_M r = fst (snd (fst (read_counts (count_status out)))) \<and>
         col_D r = snd (snd (fst (read_counts (count_status out)))) \<and>
         col_repository r = trim (stdout (config_remote_origin_url io)) \<and>
         col_branch r = trimmed_or_empty (rev_parse_HEAD io) \<and>
         col_behind r = (if trimmed_or_empty (rev_parse_HEAD io) \<noteq> []
                         then gitLogCount (log_HEAD_upstream io) else Str_empty) \<and>
         col_ahead r = (if trimmed_or_empty (rev_parse_HEAD io) \<noteq> []
                        then gitLogCount (log_upstream_HEAD io) else Str_empty) \<and>
         col_behindDefault r = (if trimmed_or_empty (rev_parse_origin_HEAD io) \<noteq> []
                                then gitLogCount (log_HEAD_default io) else Str_question) \<and>
         col_aheadDefault r = (if trimmed_or_empty (rev_parse_origin_HEAD io) \<noteq> []
                               then gitLogCount (log_default_HEAD io) else Str_question) \<and>
         col_action r = action_of (local_changes (count_status out)) (col_ahead r) (col_behind r)
                          (col_behindDefault r) (col_aheadDefault r)"
  using assms by (simp add: status_repo_def Let_def)

lemma status_repo_Rejected:
  "git_status io = Rejected msg out \<Longrightarrow> status_repo name io acc = (Inl msg, acc)"
  by (simp add: status_repo_def)

lemma status_repo_InrD:
  assumes "status_repo name io acc = (Inr r, acc')"
  shows "git_status io = Resolved (stdout (git_status io))"
  using assms by (cases "git_status io") (simp_all add: status_repo_def)

text \<open>
  Claim C1. The recommended action is a total function of the five values
  (local changes, behind and ahead of upstream, behind and ahead of the default
  branch): it is the action of the first rule that matches, in the order commit,
  resolve, pull, push, merge, pr, and ok when none matches. Two states that
  agree on the fields read by the rules up to the first matching one get the
  same action. The action in the row that \<open>status_repo\<close> builds is this function
  of the values of that row.
\<close>

theorem action_is_first_matching_rule:
  "decide s = first_matching_rule s
   \<and> (relevant_agree (rule_index s) s s' \<longrightarrow> decide s' = decide s)
   \<and> (status_repo name io acc = (Inr r, acc') \<longrightarrow>
        col_action r =
          first_matching_rule (local_changes (count_status (stdout (git_status io))),
            col_behind r, col_ahead r, col_behindDefault r, col_aheadDefault r))"
proof -
  have "col_action r =
          first_matching_rule (local_changes (count_status (stdout (git_status io))),
            col_behind r, col_ahead r, col_behindDefault r, col_aheadDefault r)"
    if r: "status_repo name io acc = (Inr r, acc')"
  proof -
    from status_repo_Resolved [OF status_repo_InrD [OF r], of name acc] r
    have "col_action r = action_of (local_changes (count_status (stdout (git_status io))))
            (col_ahead r) (col_behind r) (col_behindDefault r) (col_aheadDefault r)"
      by auto
    then show ?thesis by (simp add: decide_first_matching [symmetric] decide_def)
  qed
  with decide_first_matching [of s] decide_irrelevant [of s s'] show ?thesis by blast
qed

theorem action_is_first_matching_rule_witness:
  "relevant_agree (rule_index (False, Number 2, Number 0, Number 5, Str_question))
     (False, Number 2, Number 0, Number 5, Str_question)
     (False, Number 2, Number 0, Str_bang, Number 7)
   \<and> decide (False, Number 2, Number 0, Str_bang, Number 7) = ActPull
   \<and> decide (False, Number 2, Number 0, Number 5, Str_question) = ActPull
   \<and> (\<exists>r acc'. status_repo [''a''] example_io None = (Inr r, acc')
        \<and> col_behind r = Number 1 \<and> col_ahead r = Str_bang
        \<and> col_action r = ActPull)"
proof -
  let ?s = "(False, Number 2, Number 0, Number 5, Str_question)"
  let ?s' = "(False, Number 2, Number 0, Str_bang, Number 7)"
  have agree: "relevant_agree (rule_index ?s) ?s ?s'"
    by (simp add: rule_index_cases gt0_def)
  have pull: "first_matching_rule ?s = ActPull"
    by (simp add: first_matching_rule_def decision_rules_def gt0_def)
  obtain r acc' where r: "status_repo [''a''] example_io None = (Inr r, acc')"
    and b: "col_behind r = Number 1" and a: "col_ahead r = Str_bang"
    and bd: "col_behindDefault r = Str_question" and ad: "col_aheadDefault r = Str_question"
    by (simp add: status_repo_def example_io_def Let_def trimmed_or_empty_def trim_def
        isWhiteSpace_def gitLogCount_def)
  have l: "\<not> local_changes (count_status (stdout (git_status example_io)))"
    by (simp add: example_io_def count_status_def status_entries_def local_changes_def AutoMap_size_def)
  from action_is_first_matching_rule [of ?s ?s' "[''a'']" example_io None r acc'] agree pull r
  have 1: "decide ?s' = ActPull" "decide ?s = ActPull"
    and 2: "col_action r =
          first_matching_rule (local_changes (count_status (stdout (git_status example_io))),
            col_behind r, col_ahead r, col_behindDefault r, col_aheadDefault r)"
    by simp_all
  from 2 l b a bd ad have "col_action r = ActPull"
    by (simp add: first_matching_rule_def decision_rules_def gt0_def)
  with agree 1 r b a show ?thesis by blast
qed

lemma ToString_unknown_any: "unknown u \<Longrightarrow> ToString u \<noteq> ToString (Number n)"
proof (cases "0 \<le> n")
  case True
  assume "unknown u"
  from ToString_unknown [OF this True] show ?thesis .
next
  case False
  assume "unknown u"
  with False show ?thesis by (auto simp: unknown_def)
qed

lemma action_of_unknown:
  assumes "unknown u"
  shows "action_of l u b bd ad = action_of l (Number 0) b bd ad"
    and "action_of l a u bd ad = action_of l a (Number 0) bd ad"
    and "action_of l a b u ad = action_of l a b (Number 0) ad"
    and "action_of l a b bd u = action_of l a b bd (Number 0)"
  using gt0_unknown [OF assms] by (simp_all add: action_of_def gt0_def)

lemma gitLogCount_Rejected: "gitLogCount (Rejected m out) = Str_bang"
  by (simp add: gitLogCount_def)

lemma trim_no_break_space: "trim [CHR 0xA0, CHR 0x0A] = []"
  by (simp add: trim_def isWhiteSpace_def)

lemma trimmed_or_empty_Rejected: "trimmed_or_empty (Rejected m out) = []"
  by (simp add: trimmed_or_empty_def)

lemma trimmed_or_empty_Resolved: "trimmed_or_empty (Resolved out) = trim out"
  by (simp add: trimmed_or_empty_def)

text \<open>
  Claim C3. An unknown divergence value (\<open>"!"\<close> after a count that threw, \<open>""\<close>
  with no branch name, \<open>"?"\<close> with no default branch) never satisfies \<open>> 0\<close>:
  in every position of the decision it acts as the number 0 does. Its cell is
  not the number 0, and its text is not the text of any number, in particular
  not \<open>0\<close>. The callback produces these values in the cases named, stated on
  the queries themselves: when the query for the branch name rejects, whatever
  it printed, or resolves with nothing but white space, both upstream cells are
  \<open>""\<close>; when the query for the default branch rejects or resolves with nothing
  but white space, both default cells are \<open>"?"\<close>; when the name is there and a
  count rejects, its cell is \<open>"!"\<close>. Every divergence cell is either unknown or
  a number that is not negative.
\<close>

theorem unknown_divergence_not_positive:
  "(unknown u \<longrightarrow>
      \<not> gt0 u \<and> u \<noteq> Number 0 \<and> ToString u \<noteq> ToString (Number n) \<and> ToString u \<noteq> ''0''
      \<and> action_of l u b bd ad = action_of l (Number 0) b bd ad
      \<and> action_of l a u bd ad = action_of l a (Number 0) bd ad
      \<and> action_of l a b u ad = action_of l a b (Number 0) ad
      \<and> action_of l a b bd u = action_of l a b bd (Number 0))
   \<and> (status_repo name io acc = (Inr r, acc') \<longrightarrow>
        (rev_parse_HEAD io = Rejected mh oh \<longrightarrow>
            col_branch r = [] \<and> col_behind r = Str_empty \<and> col_ahead r = Str_empty)
      \<and> (rev_parse_HEAD io = Resolved h \<and> trim h = [] \<longrightarrow>
            col_branch r = [] \<and> col_behind r = Str_empty \<and> col_ahead r = Str_empty)
      \<and> (rev_parse_HEAD io = Resolved h \<and> trim h \<noteq> [] \<and> log_HEAD_upstream io = Rejected m1 o1 \<longrightarrow>
            col_behind r = Str_bang)
      \<and> (rev_parse_HEAD io = Resolved h \<and> trim h \<noteq> [] \<and> log_upstream_HEAD io = Rejected m2 o2 \<longrightarrow>
            col_ahead r = Str_bang)
      \<and> (rev_parse_origin_HEAD io = Rejected md od \<longrightarrow>
            col_behindDefault r = Str_question \<and> col_aheadDefault r = Str_question)
      \<and> (rev_parse_origin_HEAD io = Resolved d \<and> trim d = [] \<longrightarrow>
            col_behindDefault r = Str_question \<and> col_aheadDefault r = Str_question)
      \<and> (rev_parse_origin_HEAD io = Resolved d \<and> trim d \<noteq> [] \<and> log_HEAD_default io = Rejected m3 o3 \<longrightarrow>
            col_behindDefault r = Str_bang)
      \<and> (rev_parse_origin_HEAD io = Resolved d \<and> trim d \<noteq> [] \<and> log_default_HEAD io = Rejected m4 o4 \<longrightarrow>
            col_aheadDefault r = Str_bang)
      \<and> (col_branch r = [] \<longrightarrow> col_behind r = Str_empty \<and> col_ahead r = Str_empty)
      \<and> (col_branch r \<noteq> [] \<and> log_HEAD_upstream io = Rejected m1 o1 \<longrightarrow> col_behind r = Str_bang)
      \<and> (col_branch r \<noteq> [] \<and> log_upstream_HEAD io = Rejected m2 o2 \<longrightarrow> col_ahead r = Str_bang)
      \<and> (trimmed_or_empty (rev_parse_origin_HEAD io) = [] \<longrightarrow>
            col_behindDefault r = Str_question \<and> col_aheadDefault r = Str_question)
      \<and> (trimmed_or_empty (rev_parse_origin_HEAD io) \<noteq> [] \<and> log_HEAD_default io = Rejected m3 o3 \<longrightarrow>
            col_behindDefault r = Str_bang)
      \<and> (trimmed_or_empty (rev_parse_origin_HEAD io) \<noteq> [] \<and> log_default_HEAD io = Rejected m4 o4 \<longrightarrow>
            col_aheadDefault r = Str_bang)
      \<and> (\<forall>c \<in> {col_behind r, col_ahead r, col_behindDefault r, col_aheadDefault r}.
            unknown c \<or> (\<exists>k\<ge>0. c = Number k)))"
  (is "(_ \<longrightarrow> ?P) \<and> (_ \<longrightarrow> ?Q)")
proof (rule conjI; rule impI)
  assume u: "unknown u"
  have zero: "ToString (Number 0) = ''0''" by (simp add: digits.simps)
  show ?P
    using gt0_unknown [OF u] ToString_unknown_any [OF u, of n] ToString_unknown_any [OF u, of 0]
      action_of_unknown [OF u] u
    unfolding zero by (auto simp: unknown_def)
next
  assume r: "status_repo name io acc = (Inr r, acc')"
  from status_repo_Resolved [OF status_repo_InrD [OF r], of name acc] r
  have f: "col_branch r = trimmed_or_empty (rev_parse_HEAD io)"
    "col_behind r = (if trimmed_or_empty (rev_parse_HEAD io) \<noteq> []
                       then gitLogCount (log_HEAD_upstream io) else Str_empty)"
    "col_ahead r = (if trimmed_or_empty (rev_parse_HEAD io) \<noteq> []
                      then gitLogCount (log_upstream_HEAD io) else Str_empty)"
    "col_behindDefault r = (if trimmed_or_empty (rev_parse_origin_HEAD io) \<noteq> []
                              then gitLogCount (log_HEAD_default io) else Str_question)"
    "col_aheadDefault r = (if trimmed_or_empty (rev_parse_origin_HEAD io) \<noteq> []
                             then gitLogCount (log_default_HEAD io) else Str_question)"
    by auto
  have s: "unknown Str_empty" "unknown Str_question" by (simp_all add: unknown_def)
  show ?Q
    using gitLogCount_cases [of "log_HEAD_upstream io"] gitLogCount_cases [of "log_upstream_HEAD io"]
      gitLogCount_cases [of "log_HEAD_default io"] gitLogCount_cases [of "log_default_HEAD io"] s
    by (simp add: f gitLogCount_Rejected trimmed_or_empty_Rejected trimmed_or_empty_Resolved)
qed

theorem unknown_divergence_not_positive_witness:
  "unknown Str_bang \<and> \<not> gt0 Str_bang \<and> ToString Str_bang \<noteq> ''0''
   \<and> action_of False Str_bang (Number 3) Str_question (Number 2) = ActPull
   \<and> action_of False (Number 0) (Number 3) Str_question (Number 2) = ActPull
   \<and> rev_parse_HEAD example_io = Resolved [CHR ''m'', CHR 0x0A]
   \<and> trim [CHR ''m'', CHR 0x0A] \<noteq> []
   \<and> log_upstream_HEAD example_io = Rejected ''fatal'' []
   \<and> rev_parse_origin_HEAD example_io = Rejected ''fatal'' (''origin/HEAD'' @ [CHR 0x0A])
   \<and> (\<exists>r acc'. status_repo [''a''] example_io None = (Inr r, acc')
        \<and> col_ahead r = Str_bang
        \<and> col_behindDefault r = Str_question \<and> col_aheadDefault r = Str_question
        \<and> col_behind r = Number 1)
   \<and> rev_parse_HEAD example_io_no_branch = Rejected ''fatal'' (''HEAD'' @ [CHR 0x0A])
   \<and> (\<exists>r acc'. status_repo [''a''] example_io_no_branch None = (Inr r, acc')
        \<and> col_branch r = [] \<and> col_behind r = Str_empty \<and> col_ahead r = Str_empty)
   \<and> rev_parse_origin_HEAD example_io_default_fails = Resolved (''origin/main'' @ [CHR 0x0A])
   \<and> trim (''origin/main'' @ [CHR 0x0A]) \<noteq> []
   \<and> log_HEAD_default example_io_default_fails = Rejected ''fatal'' []
   \<and> log_default_HEAD example_io_default_fails = Rejected ''fatal'' []
   \<and> (\<exists>r acc'. status_repo [''a''] example_io_default_fails None = (Inr r, acc')
        \<and> col_behindDefault r = Str_bang \<and> col_aheadDefault r = Str_bang)"
proof -
  have u: "unknown Str_bang" by (simp add: unknown_def)
  have act: "action_of False (Number 0) (Number 3) Str_question (Number 2) = ActPull"
    by (simp add: action_of_def gt0_def)
  have q1: "rev_parse_HEAD example_io = Resolved [CHR ''m'', CHR 0x0A]"
    "log_upstream_HEAD example_io = Rejected ''fatal'' []"
    "rev_parse_origin_HEAD example_io = Rejected ''fatal'' (''origin/HEAD'' @ [CHR 0x0A])"
    "git_status example_io = Resolved []"
    "log_HEAD_upstream example_io = Resolved [CHR ''c'', CHR 0x0A]"
    by (simp_all add: example_io_def)
  have t1: "trim [CHR ''m'', CHR 0x0A] \<noteq> []" by (simp add: trim_def isWhiteSpace_def)
  have q2: "rev_parse_HEAD example_io_no_branch = Rejected ''fatal'' (''HEAD'' @ [CHR 0x0A])"
    "git_status example_io_no_branch = Resolved []"
    by (simp_all add: example_io_no_branch_def example_io_def)
  have q3: "rev_parse_origin_HEAD example_io_default_fails = Resolved (''origin/main'' @ [CHR 0x0A])"
    "log_HEAD_default example_io_default_fails = Rejected ''fatal'' []"
    "log_default_HEAD example_io_default_fails = Rejected ''fatal'' []"
    "git_status example_io_default_fails = Resolved []"
    by (simp_all add: example_io_default_fails_def example_io_def)
  have t3: "trim (''origin/main'' @ [CHR 0x0A]) \<noteq> []" by (simp add: trim_def isWhiteSpace_def)
  from status_repo_Resolved [OF q1(4), of "[''a'']" None]
  obtain r1 a1 where r1: "status_repo [''a''] example_io None = (Inr r1, a1)"
    and b1: "col_behind r1 = (if trimmed_or_empty (rev_parse_HEAD example_io) \<noteq> []
                         then gitLogCount (log_HEAD_upstream example_io) else Str_empty)"
    by blast
  from b1 have b1': "col_behind r1 = Number 1"
    unfolding q1 by (simp add: trimmed_or_empty_def t1 gitLogCount_def)
  from status_repo_Resolved [OF q2(2), of "[''a'']" None]
  obtain r2 a2 where r2: "status_repo [''a''] example_io_no_branch None = (Inr r2, a2)" by blast
  from status_repo_Resolved [OF q3(4), of "[''a'']" None]
  obtain r3 a3 where r3: "status_repo [''a''] example_io_default_fails None = (Inr r3, a3)" by blast
  note i0 = unknown_divergence_not_positive
    [where u = Str_bang and n = 0 and l = False and b = "Number 3" and bd = Str_question
       and ad = "Number 2" and a = "Number 0", THEN conjunct1, THEN mp, OF u]
  from i0 have 0: "\<not> gt0 Str_bang" "ToString Str_bang \<noteq> ''0''"
    "action_of False Str_bang (Number 3) Str_question (Number 2) =
     action_of False (Number 0) (Number 3) Str_question (Number 2)"
    by blast+
  note i1 = unknown_divergence_not_positive
    [where name = "[''a'']" and io = example_io and acc = None and r = r1 and acc' = a1
       and h = "[CHR ''m'', CHR 0x0A]" and ?m2.0 = "''fatal''" and ?o2.0 = "[]"
       and md = "''fatal''" and od = "''origin/HEAD'' @ [CHR 0x0A]",
     THEN conjunct2, THEN mp, OF r1]
  from i1 q1 t1 have 1: "col_ahead r1 = Str_bang"
    "col_behindDefault r1 = Str_question" "col_aheadDefault r1 = Str_question"
    by blast+
  note i2 = unknown_divergence_not_positive
    [where name = "[''a'']" and io = example_io_no_branch and acc = None and r = r2 and acc' = a2
       and mh = "''fatal''" and oh = "''HEAD'' @ [CHR 0x0A]",
     THEN conjunct2, THEN mp, OF r2]
  from i2 q2 have 2: "col_branch r2 = []" "col_behind r2 = Str_empty" "col_ahead r2 = Str_empty"
    by blast+
  note i3 = unknown_divergence_not_positive
    [where name = "[''a'']" and io = example_io_default_fails and acc = None and r = r3
       and acc' = a3 and d = "''origin/main'' @ [CHR 0x0A]"
       and ?m3.0 = "''fatal''" and ?o3.0 = "[]" and ?m4.0 = "''fatal''" and ?o4.0 = "[]",
     THEN conjunct2, THEN mp, OF r3]
  from i3 q3 t3 have 3: "col_behindDefault r3 = Str_bang" "col_aheadDefault r3 = Str_bang"
    by blast+
  show ?thesis
    using u 0 act q1(1,2,3) t1 r1 1 b1' q2(1) r2 2 q3(1,2,3) t3 r3 3 by simp
qed

lemma read_counts_count_status:
  "fst (read_counts (count_status out)) =
     (int (entries_with ''??'' out), int (entries_with '' M'' out), int (entries_with '' D'' out))"
  by (simp add: read_counts_values map_of_count_status)

lemma action_of_commit_iff: "action_of l a b bd ad = ActCommit \<longleftrightarrow> l"
  by (simp add: action_of_def)

text \<open>
  Claim C7. Every count of the tally built from the porcelain output is the
  number of entries with that code, hence not negative, and so are the three
  counts displayed; the local-changes predicate holds exactly when the tally is
  not empty, which is exactly when the output has an entry, and the action is
  commit exactly then. A status output with the single entry of one untracked
  file gives the tally \<open>{??: 1}\<close> and the action commit.
\<close>

theorem tally_counts_and_local_changes:
  "(\<forall>e \<in> set (count_status out). snd e = int (entries_with (fst e) out) \<and> 0 \<le> snd e)
   \<and> (local_changes (count_status out) \<longleftrightarrow> count_status out \<noteq> [])
   \<and> (count_status out \<noteq> [] \<longleftrightarrow> status_entries out \<noteq> [])
   \<and> (status_repo name io acc = (Inr r, acc') \<longrightarrow>
        col_A r = int (entries_with ''??'' (stdout (git_status io))) \<and> 0 \<le> col_A r
        \<and> col_M r = int (entries_with '' M'' (stdout (git_status io))) \<and> 0 \<le> col_M r
        \<and> col_D r = int (entries_with '' D'' (stdout (git_status io))) \<and> 0 \<le> col_D r
        \<and> (col_action r = ActCommit \<longleftrightarrow> count_status (stdout (git_status io)) \<noteq> []))
   \<and> (CHR 0x00 \<notin> set file \<and> git_status io = Resolved (''?? '' @ file @ [CHR 0x00]) \<longrightarrow>
        count_status (stdout (git_status io)) = [(''??'', 1)]
        \<and> (\<exists>r acc'. status_repo name io acc = (Inr r, acc') \<and> col_action r = ActCommit
              \<and> col_A r = 1))"
proof -
  have counts: "\<forall>e \<in> set (count_status out). snd e = int (entries_with (fst e) out) \<and> 0 \<le> snd e"
    using count_status_values [of _ _ out] by fastforce
  have row: "col_A r = int (entries_with ''??'' (stdout (git_status io))) \<and> 0 \<le> col_A r
        \<and> col_M r = int (entries_with '' M'' (stdout (git_status io))) \<and> 0 \<le> col_M r
        \<and> col_D r = int (entries_with '' D'' (stdout (git_status io))) \<and> 0 \<le> col_D r
        \<and> (col_action r = ActCommit \<longleftrightarrow> count_status (stdout (git_status io)) \<noteq> [])"
    if r: "status_repo name io acc = (Inr r, acc')"
    using status_repo_Resolved [OF status_repo_InrD [OF r], of name acc] r
    by (auto simp: read_counts_count_status action_of_commit_iff local_changes_iff)
  have untracked: "count_status (stdout (git_status io)) = [(''??'', 1)]
        \<and> (\<exists>r acc'. status_repo name io acc = (Inr r, acc') \<and> col_action r = ActCommit
              \<and> col_A r = 1)"
    if f: "CHR 0x00 \<notin> set file" and g: "git_status io = Resolved (''?? '' @ file @ [CHR 0x00])"
  proof -
    from untracked_only [OF f] g
    have t: "count_status (stdout (git_status io)) = [(''??'', 1)]" by simp
    from status_repo_Resolved [OF g, of name acc] obtain r where
      r: "status_repo name io acc =
           (Inr r, update_commonRepositoryPrefix acc (trim (stdout (config_remote_origin_url io))))"
      and a: "col_A r = fst (fst (read_counts (count_status (''?? '' @ file @ [CHR 0x00]))))"
      and c: "col_action r = action_of (local_changes (count_status (''?? '' @ file @ [CHR 0x00])))
            (col_ahead r) (col_behind r) (col_behindDefault r) (col_aheadDefault r)"
      by blast
    from t g have t': "count_status (''?? '' @ file @ [CHR 0x00]) = [(''??'', 1)]" by simp
    from a have "col_A r = 1" unfolding t' by (simp add: read_counts_values)
    moreover from c have "col_action r = ActCommit"
      unfolding t' by (simp add: action_of_commit_iff local_changes_iff)
    ultimately show ?thesis using t r by blast
  qed
  from counts row untracked show ?thesis
    using local_changes_iff [of "count_status out"] count_status_empty_iff [of out] by blast
qed

theorem tally_counts_and_local_changes_witness:
  "count_status (stdout (git_status example_io_changes)) = [(''??'', 2), ('' M'', 1)]
   \<and> (''??'', 2) \<in> set (count_status (stdout (git_status example_io_changes)))
   \<and> entries_with ''??'' (stdout (git_status example_io_changes)) = 2
   \<and> (\<exists>r acc'. status_repo [''a''] example_io_changes None = (Inr r, acc') \<and> col_A r = 2 \<and> col_M r = 1
        \<and> col_D r = 0 \<and> col_action r = ActCommit)
   \<and> CHR 0x00 \<notin> set ''new.txt''
   \<and> git_status example_io_untracked = Resolved (''?? '' @ ''new.txt'' @ [CHR 0x00])
   \<and> count_status (stdout (git_status example_io_untracked)) = [(''??'', 1)]
   \<and> (\<exists>r acc'. status_repo [''a''] example_io_untracked None = (Inr r, acc') \<and> col_action r = ActCommit
        \<and> col_A r = 1)"
proof -
  have t2: "count_status (stdout (git_status example_io_changes)) = [(''??'', 2), ('' M'', 1)]"
    by (simp add: example_io_changes_def example_io_def count_status_def status_entries_def count_entry_def
        AutoMap_get_def AutoMap_set_def)
  then have m: "(''??'', 2) \<in> set (count_status (stdout (git_status example_io_changes)))" by simp
  have "git_status example_io_changes = Resolved (stdout (git_status example_io_changes))" by (simp add: example_io_changes_def)
  from status_repo_Resolved [OF this, of "[''a'']" None]
  obtain r acc' where r: "status_repo [''a''] example_io_changes None = (Inr r, acc')" by blast
  have f: "CHR 0x00 \<notin> set ''new.txt''" by simp
  have g: "git_status example_io_untracked = Resolved (''?? '' @ ''new.txt'' @ [CHR 0x00])"
    by (simp add: example_io_untracked_def example_io_def)
  note inst2 = tally_counts_and_local_changes [of "stdout (git_status example_io_changes)" "[''a'']" example_io_changes None r acc' "''new.txt''"]
  note inst3 = tally_counts_and_local_changes [of "stdout (git_status example_io_untracked)" "[''a'']" example_io_untracked None r acc' "''new.txt''"]
  from inst2 m have "snd (''??'', 2::int) = int (entries_with (fst (''??'', 2::int)) (stdout (git_status example_io_changes)))"
    by blast
  then have e: "entries_with ''??'' (stdout (git_status example_io_changes)) = 2" by simp
  from inst2 r have c: "col_A r = int (entries_with ''??'' (stdout (git_status example_io_changes)))"
    "col_M r = int (entries_with '' M'' (stdout (git_status example_io_changes)))"
    "col_D r = int (entries_with '' D'' (stdout (git_status example_io_changes)))"
    "col_action r = ActCommit \<longleftrightarrow> count_status (stdout (git_status example_io_changes)) \<noteq> []"
    by blast+
  have e': "entries_with '' M'' (stdout (git_status example_io_changes)) = 1" "entries_with '' D'' (stdout (git_status example_io_changes)) = 0"
    by (simp_all add: entries_with_def example_io_changes_def example_io_def status_entries_def)
  from c e e' t2 have row2: "col_A r = 2 \<and> col_M r = 1 \<and> col_D r = 0 \<and> col_action r = ActCommit"
    by simp
  from inst3 f g have 3: "count_status (stdout (git_status example_io_untracked)) = [(''??'', 1)]"
    "\<exists>r acc'. status_repo [''a''] example_io_untracked None = (Inr r, acc') \<and> col_action r = ActCommit \<and> col_A r = 1"
    by blast+
  from t2 m e r row2 f g 3 show ?thesis by blast
qed

text \<open>
  Claim C9. The three reads for the display columns insert zero-valued entries
  for the keys that are absent, so that after them the map is never empty; the
  local-changes predicate is taken from the map before these reads. For an
  empty status output the predicate is false, the three counts are 0, the
  action is not commit, and the map afterwards holds three zero-valued entries.
\<close>

theorem local_captured_before_display_reads:
  "(git_status io = Resolved [] \<longrightarrow>
      (\<exists>r acc'. status_repo name io acc = (Inr r, acc') \<and> col_action r \<noteq> ActCommit
         \<and> col_A r = 0 \<and> col_M r = 0 \<and> col_D r = 0))
   \<and> count_status [] = []
   \<and> \<not> local_changes (count_status [])
   \<and> snd (read_counts (count_status [])) = [(''??'', 0), ('' M'', 0), ('' D'', 0)]
   \<and> local_changes (snd (read_counts (count_status out)))"
proof -
  have e: "count_status [] = []" by (simp add: count_status_def status_entries_def)
  have rc: "read_counts [] = ((0, 0, 0), [(''??'', 0), ('' M'', 0), ('' D'', 0)])"
    by (simp add: read_counts_def AutoMap_get_def)
  have "\<exists>r acc'. status_repo name io acc = (Inr r, acc') \<and> col_action r \<noteq> ActCommit
         \<and> col_A r = 0 \<and> col_M r = 0 \<and> col_D r = 0" if g: "git_status io = Resolved []"
    using status_repo_Resolved [OF g, of name acc]
    by (auto simp: e rc action_of_commit_iff local_changes_iff)
  then show ?thesis
    using read_counts_nonempty [of "count_status out"]
    by (simp add: e rc local_changes_iff)
qed

theorem local_captured_before_display_reads_witness:
  "git_status example_io = Resolved []
   \<and> (\<exists>r acc'. status_repo [''a''] example_io None = (Inr r, acc') \<and> col_action r = ActPull
         \<and> col_A r = 0 \<and> col_M r = 0 \<and> col_D r = 0)
   \<and> snd (read_counts (count_status [])) = [(''??'', 0), ('' M'', 0), ('' D'', 0)]"
proof -
  have g: "git_status example_io = Resolved []" by (simp add: example_io_def)
  from local_captured_before_display_reads [of example_io "[''a'']" None "[]"] g
  obtain r acc' where r: "status_repo [''a''] example_io None = (Inr r, acc')"
    "col_A r = 0" "col_M r = 0" "col_D r = 0"
    and t: "snd (read_counts (count_status [])) = [(''??'', 0), ('' M'', 0), ('' D'', 0)]"
    by blast
  from r(1) have "col_action r = ActPull"
    by (auto simp: status_repo_def example_io_def Let_def trimmed_or_empty_def trim_def
        isWhiteSpace_def gitLogCount_def action_of_def gt0_def count_status_def
        status_entries_def local_changes_def AutoMap_size_def)
  with g r t show ?thesis by blast
qed

subsection \<open>Facts and claims about the repository locator\<close>

lemma basename_join [simp]: "basename (join p n) = n"
  by (simp add: basename_def join_def)

lemma dirname_join [simp]: "dirname (join p n) = p"
  by (simp add: dirname_def join_def)

lemma Promise_all_map_Inr: "Promise_all (map Inr xs) = Inr xs"
  by (induction xs) auto

lemma Promise_all_InrD: "Promise_all ps = Inr xs \<Longrightarrow> ps = map Inr xs"
  by (induction ps arbitrary: xs rule: Promise_all.induct) (auto split: sum.splits)

lemma Promise_all_Inr: "Promise_all ps = Inr xs \<longleftrightarrow> ps = map Inr xs"
  using Promise_all_InrD Promise_all_map_Inr by blast

lemma findGit_git: "basename path = ''.git'' \<Longrightarrow> findGit path node = Inr [dirname path]"
  by (subst findGit.simps) simp

lemma findGit_Dir:
  "basename path \<noteq> ''.git'' \<Longrightarrow>
   findGit path (Dir ds) =
     (case Promise_all
             (map (\<lambda>dirEnt. findGit (join path (fst dirEnt)) (snd dirEnt))
                (filter (\<lambda>dirEnt. isDirectory (snd dirEnt)) ds)) of
        Inl e \<Rightarrow> Inl e
      | Inr found \<Rightarrow> Inr (concat found))"
  by (subst findGit.simps) simp

lemma findGit_not_Dir:
  "basename path \<noteq> ''.git'' \<Longrightarrow> findGit path File = Inl ReaddirError"
  "basename path \<noteq> ''.git'' \<Longrightarrow> findGit path Denied = Inl ReaddirError"
  by (subst findGit.simps, simp)+

text \<open>What a successful call on a directory says about the calls on its entries.\<close>

lemma findGit_Dir_InrD:
  assumes "basename path \<noteq> ''.git''" and "findGit path (Dir ds) = Inr rs"
  shows "\<exists>g. rs = concat (map g (filter (\<lambda>e. isDirectory (snd e)) ds)) \<and>
             (\<forall>e \<in> set ds. isDirectory (snd e) \<longrightarrow>
                findGit (join path (fst e)) (snd e) = Inr (g e))"
proof -
  let ?es = "filter (\<lambda>e. isDirectory (snd e)) ds"
  let ?f = "\<lambda>e. findGit (join path (fst e)) (snd e)"
  from assms obtain found where pa: "Promise_all (map ?f ?es) = Inr found"
    and rs: "rs = concat found"
    by (auto simp: findGit_Dir split: sum.splits)
  from pa have m: "map ?f ?es = map Inr found" by (simp add: Promise_all_Inr)
  define g where "g e = (case ?f e of Inr r \<Rightarrow> r | Inl _ \<Rightarrow> [])" for e
  have "map g ?es = map (\<lambda>x. case x of Inr r \<Rightarrow> r | Inl _ \<Rightarrow> []) (map ?f ?es)"
    by (simp add: g_def)
  also have "\<dots> = found" unfolding m by (simp add: comp_def)
  finally have found: "found = map g ?es" by simp
  have "?f e = Inr (g e)" if "e \<in> set ds" "isDirectory (snd e)" for e
  proof -
    from that have "?f e \<in> set (map ?f ?es)" by auto
    then have "?f e \<in> set (map Inr found)" unfolding m .
    then show ?thesis by (auto simp: g_def)
  qed
  with rs found show ?thesis by blast
qed

lemma repo_at_isDirectory: "repo_at t q \<Longrightarrow> isDirectory t"
  by (erule repo_at.cases) simp_all

lemma repo_at_hereI:
  "e \<in> set ds \<Longrightarrow> fst e = ''.git'' \<Longrightarrow> isDirectory (snd e) \<Longrightarrow> repo_at (Dir ds) []"
  by (metis repo_at.here prod.collapse)

lemma repo_at_belowI:
  "e \<in> set ds \<Longrightarrow> fst e \<noteq> ''.git'' \<Longrightarrow> repo_at (snd e) q \<Longrightarrow> repo_at (Dir ds) (fst e # q)"
  by (metis repo_at.below prod.collapse)

lemma findGit_entry_set:
  assumes ih: "fst e \<noteq> ''.git'' \<Longrightarrow> set r = {join path (fst e) @ q |q. repo_at (snd e) q}"
    and r: "findGit (join path (fst e)) (snd e) = Inr r"
  shows "set r = (if fst e = ''.git'' then {path} else {path @ fst e # q |q. repo_at (snd e) q})"
proof (cases "fst e = ''.git''")
  case True
  with r show ?thesis by (auto simp: findGit_git)
next
  case False
  with ih show ?thesis by (simp add: join_def)
qed

lemma findGit_repo_at:
  "basename path \<noteq> ''.git'' \<Longrightarrow> findGit path t = Inr rs \<Longrightarrow>
   set rs = {path @ q |q. repo_at t q}"
proof (induction path t arbitrary: rs rule: findGit.induct)
  case (1 path node)
  from "1.prems" obtain ds where node: "node = Dir ds"
    by (cases node) (simp_all add: findGit_not_Dir)
  let ?es = "filter (\<lambda>e. isDirectory (snd e)) ds"
  from findGit_Dir_InrD [OF "1.prems"(1)] "1.prems"(2) obtain g where
    rs: "rs = concat (map g ?es)"
    and g: "\<And>e. e \<in> set ds \<Longrightarrow> isDirectory (snd e) \<Longrightarrow>
              findGit (join path (fst e)) (snd e) = Inr (g e)"
    unfolding node by blast
  have each: "set (g e) =
      (if fst e = ''.git'' then {path} else {path @ fst e # q |q. repo_at (snd e) q})"
    if e: "e \<in> set ds" "isDirectory (snd e)" for e
  proof (rule findGit_entry_set [OF _ g [OF e]])
    assume "fst e \<noteq> ''.git''"
    then have "basename (join path (fst e)) \<noteq> ''.git''" by simp
    from "1.IH" [OF "1.prems"(1) node _ this g [OF e]] e
    show "set (g e) = {join path (fst e) @ q |q. repo_at (snd e) q}" by simp
  qed
  show ?case
  proof (intro set_eqI iffI)
    fix x assume "x \<in> set rs"
    then obtain e where e: "e \<in> set ds" "isDirectory (snd e)" and x: "x \<in> set (g e)"
      by (auto simp: rs)
    show "x \<in> {path @ q |q. repo_at node q}"
    proof (cases "fst e = ''.git''")
      case True
      with each [OF e] x have "x = path" by simp
      moreover from e True have "repo_at (Dir ds) []"
        by (auto intro: repo_at_hereI)
      ultimately show ?thesis by (auto simp: node)
    next
      case False
      with each [OF e] x obtain q where q: "x = path @ fst e # q" "repo_at (snd e) q" by auto
      with e False have "repo_at (Dir ds) (fst e # q)"
        by (auto intro: repo_at_belowI)
      with q show ?thesis by (auto simp: node)
    qed
  next
    fix x assume "x \<in> {path @ q |q. repo_at node q}"
    then obtain q where x: "x = path @ q" and q: "repo_at (Dir ds) q" by (auto simp: node)
    from q show "x \<in> set rs"
    proof (cases rule: repo_at.cases)
      case (here g')
      then have e: "(''.git'', g') \<in> set ds" "isDirectory (snd (''.git'', g'))" by simp_all
      from each [OF e] have "path \<in> set (g (''.git'', g'))" by simp
      with e here x show ?thesis by (force simp: rs)
    next
      case (below n t q')
      then have e: "(n, t) \<in> set ds" "isDirectory (snd (n, t))"
        by (simp_all add: repo_at_isDirectory)
      from each [OF e] below have "path @ n # q' \<in> set (g (n, t))" by auto
      with e below x show ?thesis by (force simp: rs)
    qed
  qed
qed

lemma distinct_concat_map:
  "distinct es \<Longrightarrow> (\<And>e. e \<in> set es \<Longrightarrow> distinct (g e)) \<Longrightarrow>
   (\<And>e e'. e \<in> set es \<Longrightarrow> e' \<in> set es \<Longrightarrow> e \<noteq> e' \<Longrightarrow> set (g e) \<inter> set (g e') = {}) \<Longrightarrow>
   distinct (concat (map g es))"
proof (induction es)
  case Nil
  then show ?case by simp
next
  case (Cons e es)
  have "distinct (concat (map g es))" by (rule Cons.IH) (use Cons.prems in auto)
  moreover have "distinct (g e)" using Cons.prems(2) by simp
  moreover have "set (g e) \<inter> set (g e') = {}" if "e' \<in> set es" for e'
    using Cons.prems(3) [of e e'] Cons.prems(1) that by auto
  ultimately show ?case by auto
qed

lemma findGit_distinct:
  "basename path \<noteq> ''.git'' \<Longrightarrow> findGit path t = Inr rs \<Longrightarrow> unique_names t \<Longrightarrow>
   distinct rs"
proof (induction path t arbitrary: rs rule: findGit.induct)
  case (1 path node)
  from "1.prems" obtain ds where node: "node = Dir ds"
    by (cases node) (simp_all add: findGit_not_Dir)
  let ?es = "filter (\<lambda>e. isDirectory (snd e)) ds"
  from findGit_Dir_InrD [OF "1.prems"(1)] "1.prems"(2) obtain g where
    rs: "rs = concat (map g ?es)"
    and g: "\<And>e. e \<in> set ds \<Longrightarrow> isDirectory (snd e) \<Longrightarrow>
              findGit (join path (fst e)) (snd e) = Inr (g e)"
    unfolding node by blast
  from "1.prems"(3) have names: "distinct (map fst ds)"
    and sub: "\<And>e. e \<in> set ds \<Longrightarrow> unique_names (snd e)"
    by (simp_all add: node)
  have git: "g e = [path]" if "e \<in> set ds" "isDirectory (snd e)" "fst e = ''.git''" for e
    using g [OF that(1,2)] that(3) by (simp add: findGit_git)
  have other: "set (g e) = {path @ fst e # q |q. repo_at (snd e) q}"
    if "e \<in> set ds" "isDirectory (snd e)" "fst e \<noteq> ''.git''" for e
  proof -
    from that(3) have "basename (join path (fst e)) \<noteq> ''.git''" by simp
    from findGit_repo_at [OF this g [OF that(1,2)]] show ?thesis by (simp add: join_def)
  qed
  have d: "distinct (g e)" if e: "e \<in> set ?es" for e
  proof (cases "fst e = ''.git''")
    case True
    with git e show ?thesis by simp
  next
    case False
    then have b: "basename (join path (fst e)) \<noteq> ''.git''" by simp
    from e have e': "e \<in> set ds" "isDirectory (snd e)" by simp_all
    from "1.IH" [OF "1.prems"(1) node e b g [OF e'] sub [OF e'(1)]] show ?thesis .
  qed
  have disj: "set (g e) \<inter> set (g e') = {}"
    if e: "e \<in> set ?es" and e': "e' \<in> set ?es" and ne: "e \<noteq> e'" for e e'
  proof -
    from names have "inj_on fst (set ds)" by (simp add: distinct_map)
    with e e' ne have n: "fst e \<noteq> fst e'" by (auto dest: inj_onD)
    from e e' have m: "e \<in> set ds" "isDirectory (snd e)" "e' \<in> set ds" "isDirectory (snd e')"
      by simp_all
    show ?thesis
    proof (cases "fst e = ''.git''")
      case True
      with n have "fst e' \<noteq> ''.git''" by simp
      with git [OF m(1,2) True] other [OF m(3,4)] show ?thesis by auto
    next
      case False
      show ?thesis
      proof (cases "fst e' = ''.git''")
        case True
        with git [OF m(3,4)] other [OF m(1,2) False] show ?thesis by auto
      next
        case f: False
        from other [OF m(1,2) False] other [OF m(3,4) f] n show ?thesis by auto
      qed
    qed
  qed
  from names have "distinct ?es" by (simp add: distinct_map)
  from distinct_concat_map [of ?es g, OF this d disj] show ?case by (simp add: rs)
qed

lemma Promise_all_ex_Inr:
  "(\<exists>xs. Promise_all ps = Inr xs) \<longleftrightarrow> (\<forall>p \<in> set ps. \<exists>x. p = Inr x)"
  by (induction ps rule: Promise_all.induct) (auto split: sum.splits)

lemma findGit_listable:
  "basename path \<noteq> ''.git'' \<Longrightarrow> (\<exists>rs. findGit path t = Inr rs) \<longleftrightarrow> listable t"
proof (induction path t rule: findGit.induct)
  case (1 path node)
  show ?case
  proof (cases node)
    case (Dir ds)
    let ?f = "\<lambda>e. findGit (join path (fst e)) (snd e)"
    let ?ps = "map ?f (filter (\<lambda>e. isDirectory (snd e)) ds)"
    have "(\<exists>rs. findGit path (Dir ds) = Inr rs) \<longleftrightarrow> (\<exists>found. Promise_all ?ps = Inr found)"
      by (auto simp: findGit_Dir [OF "1.prems"] split: sum.splits)
    also have "\<dots> \<longleftrightarrow> (\<forall>p \<in> set ?ps. \<exists>x. p = Inr x)"
      by (rule Promise_all_ex_Inr)
    also have "\<dots> \<longleftrightarrow> (\<forall>e \<in> set ds. isDirectory (snd e) \<longrightarrow> (\<exists>r. ?f e = Inr r))"
      by auto
    finally have "(\<exists>rs. findGit path (Dir ds) = Inr rs) \<longleftrightarrow>
          (\<forall>e \<in> set ds. isDirectory (snd e) \<longrightarrow> (\<exists>r. ?f e = Inr r))" .
    moreover have "(\<exists>r. ?f e = Inr r) \<longleftrightarrow> fst e = ''.git'' \<or> listable (snd e)"
      if "e \<in> set ds" "isDirectory (snd e)" for e
    proof (cases "fst e = ''.git''")
      case True
      then show ?thesis by (simp add: findGit_git)
    next
      case False
      then have "basename (join path (fst e)) \<noteq> ''.git''" by simp
      from "1.IH" [OF "1.prems" Dir _ this] that False show ?thesis by simp
    qed
    ultimately show ?thesis by (auto simp: Dir)
  qed (simp_all add: findGit_not_Dir "1.prems")
qed

lemma findGit_ignores_files:
  assumes "basename path \<noteq> ''.git''"
  shows "findGit path (Dir ds) = findGit path (Dir (filter (\<lambda>e. isDirectory (snd e)) ds))"
  by (simp add: findGit_Dir [OF assms])

lemma findGit_Dir_InrI:
  assumes "basename path \<noteq> ''.git''"
    and "\<forall>e \<in> set ds. isDirectory (snd e) \<longrightarrow> findGit (join path (fst e)) (snd e) = Inr (g e)"
  shows "findGit path (Dir ds) = Inr (concat (map g (filter (\<lambda>e. isDirectory (snd e)) ds)))"
proof -
  have "map (\<lambda>e. findGit (join path (fst e)) (snd e)) (filter (\<lambda>e. isDirectory (snd e)) ds) =
        map Inr (map g (filter (\<lambda>e. isDirectory (snd e)) ds))"
    using assms(2) by simp
  then show ?thesis
    unfolding findGit_Dir [OF assms(1)] by (simp only: Promise_all_map_Inr sum.case)
qed

lemma findGit_no_subdirectories:
  assumes "basename path \<noteq> ''.git''" and "\<forall>e \<in> set ds. \<not> isDirectory (snd e)"
  shows "findGit path (Dir ds) = Inr []"
proof -
  from assms(2) have "filter (\<lambda>e. isDirectory (snd e)) ds = []" by (simp add: filter_empty_conv)
  then show ?thesis by (simp add: findGit_Dir [OF assms(1)])
qed

text \<open>
  Claim C6. On a path whose last segment is \<^verbatim>\<open>.git\<close> the locator returns the
  parent of the path alone, whatever is there, with no recursive call. On any
  other path that is a directory it returns the concatenation, in listing
  order, of what the calls on the entries that are directories return (or
  rejects when one of them rejects); entries that are not directories make no
  difference; a directory with no subdirectory gives the empty list.
\<close>

theorem findGit_cases:
  "(basename path = ''.git'' \<longrightarrow> findGit path node = Inr [dirname path])
   \<and> findGit (join parent ''.git'') node = Inr [parent]
   \<and> (basename path \<noteq> ''.git'' \<longrightarrow>
        findGit path (Dir ds) =
          (case Promise_all
                  (map (\<lambda>dirEnt. findGit (join path (fst dirEnt)) (snd dirEnt))
                     (filter (\<lambda>dirEnt. isDirectory (snd dirEnt)) ds)) of
             Inl e \<Rightarrow> Inl e
           | Inr found \<Rightarrow> Inr (concat found))
      \<and> findGit path (Dir ds) = findGit path (Dir (filter (\<lambda>e. isDirectory (snd e)) ds))
      \<and> ((\<forall>e \<in> set ds. isDirectory (snd e) \<longrightarrow>
              findGit (join path (fst e)) (snd e) = Inr (g e)) \<longrightarrow>
           findGit path (Dir ds) = Inr (concat (map g (filter (\<lambda>e. isDirectory (snd e)) ds))))
      \<and> ((\<forall>e \<in> set ds. \<not> isDirectory (snd e)) \<longrightarrow> findGit path (Dir ds) = Inr []))"
  using findGit_git [of path node] findGit_git [of "join parent ''.git''" node]
    findGit_Dir [of path ds] findGit_ignores_files [of path ds]
    findGit_Dir_InrI [of path ds g] findGit_no_subdirectories [of path ds]
  by simp

theorem findGit_cases_witness:
  "basename [''a'', ''.git''] = ''.git''
   \<and> findGit [''a'', ''.git''] (Dir [(''objects'', Dir [])]) = Inr [[''a'']]
   \<and> basename [''a''] \<noteq> ''.git''
   \<and> findGit (join [''a''] ''.git'') (Dir []) = Inr [[''a'']]
   \<and> \<not> isDirectory File
   \<and> findGit (join [''a''] ''s'') (Dir []) = Inr []
   \<and> findGit [''a''] (Dir [(''.git'', Dir []), (''f'', File), (''s'', Dir [])]) = Inr [[''a'']]
   \<and> findGit [''a''] (Dir [(''f'', File), (''g'', File)]) = Inr []"
proof -
  let ?g = "\<lambda>e :: string \<times> node. if fst e = ''.git'' then [[''a'']] else []"
  let ?ds = "[(''.git'', Dir []), (''f'', File), (''s'', Dir [])]"
  have b1: "basename [''a'', ''.git''] = ''.git''" by (simp add: basename_def)
  have b2: "basename [''a''] \<noteq> ''.git''" by (simp add: basename_def)
  have b3: "basename [''a'', ''s''] \<noteq> ''.git''" by (simp add: basename_def)
  have h1: "findGit (join [''a''] ''.git'') (Dir []) = Inr [[''a'']]"
    using findGit_git [OF b1, of "Dir []"] by (simp add: join_def dirname_def)
  have h2: "findGit (join [''a''] ''s'') (Dir []) = Inr []"
    using findGit_no_subdirectories [OF b3, of "[]"] by (simp add: join_def)
  have h: "\<forall>e \<in> set ?ds. isDirectory (snd e) \<longrightarrow> findGit (join [''a''] (fst e)) (snd e) = Inr (?g e)"
    using h1 h2 by simp
  have n: "\<forall>e \<in> set [(''f'', File), (''g'', File)]. \<not> isDirectory (snd e)" by simp
  from findGit_cases [of "[''a'', ''.git'']" "Dir [(''objects'', Dir [])]" "[]" "[]" ?g] b1
  have 1: "findGit [''a'', ''.git''] (Dir [(''objects'', Dir [])]) = Inr [[''a'']]"
    by (simp add: dirname_def)
  from findGit_cases [of "[''a'']" File "[]" ?ds ?g] b2 h
  have 2: "findGit [''a''] (Dir ?ds) = Inr [[''a'']]" by simp
  from findGit_cases [of "[''a'']" File "[]" "[(''f'', File), (''g'', File)]" ?g] b2 n
  have 3: "findGit [''a''] (Dir [(''f'', File), (''g'', File)]) = Inr []" by blast
  from b1 b2 h1 h2 1 2 3 show ?thesis by simp
qed

lemma distinct_count_list_1: "distinct xs \<Longrightarrow> x \<in> set xs \<Longrightarrow> count_list xs x = 1"
  by (induction xs) (auto simp: count_list_0_iff)

lemma findGit_sibling:
  assumes "basename path \<noteq> ''.git''" and "findGit path (Dir ds) = Inr rs"
    and "(n, s) \<in> set ds" and "isDirectory s" and "findGit (join path n) s = Inr rs'"
  shows "set rs' \<subseteq> set rs"
proof -
  from findGit_Dir_InrD [OF assms(1,2)] obtain g where
    rs: "rs = concat (map g (filter (\<lambda>e. isDirectory (snd e)) ds))"
    and g: "\<forall>e \<in> set ds. isDirectory (snd e) \<longrightarrow> findGit (join path (fst e)) (snd e) = Inr (g e)"
    by blast
  from g assms(3,4,5) have "g (n, s) = rs'" by fastforce
  with assms(3,4) show ?thesis by (force simp: rs)
qed

text \<open>
  Claim C10. The walk does not stop at a repository root. The result of a
  successful walk is exactly the set of directories below the start that have a
  \<^verbatim>\<open>.git\<close> directory entry and are reached without passing through a \<^verbatim>\<open>.git\<close>
  directory: so a repository nested at any depth inside the working tree of
  another is in the result together with the enclosing one, and when a directory
  has a \<^verbatim>\<open>.git\<close> child, what the walk finds in a sibling subdirectory is kept.
  With distinct entry names in every directory no path is reported twice, and
  each such repository is in the result exactly once. The walk succeeds when
  every directory it lists can be listed.
\<close>

theorem findGit_descends_below_repositories:
  "(basename path \<noteq> ''.git'' \<and> listable t \<longrightarrow> (\<exists>rs. findGit path t = Inr rs))
   \<and> (basename path \<noteq> ''.git'' \<and> findGit path t = Inr rs \<longrightarrow>
        set rs = {path @ q |q. repo_at t q}
      \<and> (repo_at t q \<and> repo_at t (q @ q') \<longrightarrow> path @ q \<in> set rs \<and> path @ q @ q' \<in> set rs)
      \<and> (unique_names t \<longrightarrow> distinct rs)
      \<and> (unique_names t \<and> repo_at t q \<longrightarrow> count_list rs (path @ q) = 1))
   \<and> (basename path \<noteq> ''.git'' \<and> findGit path (Dir ds) = Inr rs
        \<and> (''.git'', g) \<in> set ds \<and> isDirectory g
        \<and> (n, s) \<in> set ds \<and> isDirectory s \<and> findGit (join path n) s = Inr rs' \<longrightarrow>
        path \<in> set rs \<and> set rs' \<subseteq> set rs)"
proof -
  have 1: "\<exists>rs. findGit path t = Inr rs" if "basename path \<noteq> ''.git''" "listable t"
    using findGit_listable [OF that(1), of t] that(2) by simp
  have 2: "set rs = {path @ q |q. repo_at t q}
      \<and> (repo_at t q \<and> repo_at t (q @ q') \<longrightarrow> path @ q \<in> set rs \<and> path @ q @ q' \<in> set rs)
      \<and> (unique_names t \<longrightarrow> distinct rs)
      \<and> (unique_names t \<and> repo_at t q \<longrightarrow> count_list rs (path @ q) = 1)"
    if b: "basename path \<noteq> ''.git''" and r: "findGit path t = Inr rs"
  proof -
    note s = findGit_repo_at [OF b r]
    have d: "distinct rs" if "unique_names t" using findGit_distinct [OF b r that] .
    have "count_list rs (path @ q) = 1" if "unique_names t" "repo_at t q"
      using distinct_count_list_1 [OF d [OF that(1)], of "path @ q"] that(2) s by auto
    with s d show ?thesis by auto
  qed
  have 3: "path \<in> set rs \<and> set rs' \<subseteq> set rs"
    if b: "basename path \<noteq> ''.git''" and r: "findGit path (Dir ds) = Inr rs"
      and g: "(''.git'', g) \<in> set ds" "isDirectory g"
      and n: "(n, s) \<in> set ds" "isDirectory s" "findGit (join path n) s = Inr rs'"
  proof -
    from g have "repo_at (Dir ds) []" by (rule repo_at.here)
    with findGit_repo_at [OF b r] have "path \<in> set rs" by force
    with findGit_sibling [OF b r n] show ?thesis by simp
  qed
  from 1 2 3 show ?thesis by blast
qed

theorem findGit_descends_below_repositories_witness:
  "basename [] \<noteq> ''.git'' \<and> listable example_tree
   \<and> findGit [] example_tree = Inr [[''a''], [''a'', ''sub'']]
   \<and> unique_names example_tree
   \<and> repo_at example_tree [''a''] \<and> repo_at example_tree ([''a''] @ [''sub''])
   \<and> count_list [[''a''], [''a'', ''sub'']] ([] @ [''a'']) = 1
   \<and> [''a''] \<in> set [[''a''], [''a'', ''sub'']]
   \<and> basename [''a''] \<noteq> ''.git''
   \<and> findGit [''a'']
         (Dir [(''.git'', Dir [(''objects'', Dir [])]), (''README'', File),
               (''sub'', Dir [(''.git'', Dir []), (''x'', File)])]) = Inr [[''a''], [''a'', ''sub'']]
   \<and> findGit (join [''a''] ''sub'') (Dir [(''.git'', Dir []), (''x'', File)]) = Inr [[''a'', ''sub'']]
   \<and> set [[''a'', ''sub'']] \<subseteq> set [[''a''], [''a'', ''sub'']]"
proof -
  let ?sub = "Dir [(''.git'', Dir []), (''x'', File)]"
  let ?git = "Dir [(''objects'', Dir [])]"
  let ?a = "[(''.git'', ?git), (''README'', File), (''sub'', ?sub)]"
  let ?rs = "[[''a''], [''a'', ''sub'']]"
  have b: "basename [] \<noteq> ''.git''" "basename [''a''] \<noteq> ''.git''"
    by (simp_all add: basename_def)
  have l: "listable example_tree" by (simp add: example_tree_def)
  have u: "unique_names example_tree" by (simp add: example_tree_def)
  have sub: "findGit (join [''a''] ''sub'') ?sub = Inr [[''a'', ''sub'']]"
    by (simp add: findGit_Dir findGit_git basename_def join_def dirname_def)
  have a: "findGit [''a''] (Dir ?a) = Inr ?rs"
    by (simp add: findGit_Dir findGit_git basename_def join_def dirname_def)
  have r: "findGit [] example_tree = Inr ?rs"
    by (simp add: example_tree_def findGit_Dir findGit_git basename_def join_def dirname_def)
  have rsub: "repo_at ?sub []" by (rule repo_at.here [of "Dir []"]) simp_all
  have ra': "repo_at (Dir ?a) [''sub'']" by (rule repo_at.below [OF _ _ rsub]) simp_all
  have ra: "repo_at (Dir ?a) []" by (rule repo_at.here [of ?git]) simp_all
  have r1: "repo_at example_tree [''a'']"
    unfolding example_tree_def by (rule repo_at.below [OF _ _ ra]) simp_all
  have r2: "repo_at example_tree ([''a''] @ [''sub''])"
    unfolding example_tree_def append.simps by (rule repo_at.below [OF _ _ ra']) simp_all
  note inst = findGit_descends_below_repositories
    [of "[]" example_tree ?rs "[''a'']" "[''sub'']" ?a ?git "''sub''" ?sub "[[''a'', ''sub'']]"]
  from inst b(1) r u r1 have c: "count_list ?rs ([] @ [''a'']) = 1" by blast
  from inst b(1) r r1 r2 have m: "[] @ [''a''] \<in> set ?rs" by blast
  note inst2 = findGit_descends_below_repositories
    [of "[''a'']" "Dir ?a" ?rs "[]" "[''sub'']" ?a ?git "''sub''" ?sub "[[''a'', ''sub'']]"]
  have e: "(''.git'', ?git) \<in> set ?a" "isDirectory ?git" "(''sub'', ?sub) \<in> set ?a" "isDirectory ?sub"
    by simp_all
  from inst2 b(2) a e sub have s: "set [[''a'', ''sub'']] \<subseteq> set ?rs" by blast
  from m have m': "[''a''] \<in> set ?rs" by simp
  from b l r u r1 r2 c m' a sub s show ?thesis by blast
qed

subsection \<open>Facts and claims about \<^verbatim>\<open>status\<close> and the dispatcher\<close>

lemma status_repo_fst:
  "fst (status_repo name io acc) = fst (status_repo name io None)"
  by (cases "git_status io") (simp_all add: status_repo_def Let_def)

lemma status_repo_snd:
  "snd (status_repo name io acc) =
     (if status_resolves io then update_commonRepositoryPrefix acc (remote_url io) else acc)"
  by (cases "git_status io") (simp_all add: status_repo_def Let_def status_resolves_def remote_url_def)

lemma status_repo_cases:
  "(status_resolves io \<and>
      (\<exists>r. status_repo name io acc = (Inr r, update_commonRepositoryPrefix acc (remote_url io))
           \<and> col_repository r = remote_url io \<and> col_directory r = name))
   \<or> (\<not> status_resolves io \<and> status_repo name io acc = (Inl (message (git_status io)), acc))"
  by (cases "git_status io") (simp_all add: status_repo_def Let_def status_resolves_def remote_url_def)

text \<open>The run of the tasks of \<open>status\<close>, field by field.\<close>

lemma run_tasks_status:
  fixes w :: world
  defines "f \<equiv> \<lambda>path. status_repo path (git w path)"
  shows "run_tasks f dirs acc =
    (map (\<lambda>d. case fst (f d None) of Inr r \<Rightarrow> Some r | Inl m \<Rightarrow> None) dirs,
     fold (\<lambda>d a. update_commonRepositoryPrefix a (remote_url (git w d)))
       (filter (\<lambda>d. status_resolves (git w d)) dirs) acc,
     map (\<lambda>d. (d, message (git_status (git w d))))
       (filter (\<lambda>d. \<not> status_resolves (git w d)) dirs))"
proof (induction dirs arbitrary: acc)
  case Nil
  show ?case by simp
next
  case (Cons d dirs)
  from status_repo_cases [of "git w d" d acc] show ?case
  proof (elim disjE conjE exE)
    fix r assume ok: "status_resolves (git w d)"
      and r: "status_repo d (git w d) acc =
                (Inr r, update_commonRepositoryPrefix acc (remote_url (git w d)))"
    from r have "fst (status_repo d (git w d) None) = Inr r"
      using status_repo_fst [of d "git w d" acc] by simp
    with ok r show ?thesis by (simp add: f_def Cons.IH [unfolded f_def])
  next
    assume no: "\<not> status_resolves (git w d)"
      and r: "status_repo d (git w d) acc = (Inl (message (git_status (git w d))), acc)"
    from r have "fst (status_repo d (git w d) None) = Inl (message (git_status (git w d)))"
      using status_repo_fst [of d "git w d" acc] by simp
    with no r show ?thesis by (simp add: f_def Cons.IH [unfolded f_def])
  qed
qed

lemma flatMap_rows_None: "None \<in> set rows \<Longrightarrow> flatMap_rows p rows = Inl TypeError"
  by (induction p rows rule: flatMap_rows.induct) (auto split: option.splits sum.splits)

lemma flatMap_rows_Some:
  "flatMap_rows (Some q) (map Some rs) =
     Inr (concat (map (\<lambda>r. [Cells (r\<lparr>col_repository := drop (length q) (col_repository r)\<rparr>),
                             Explanation (col_action r)]) rs))"
  by (induction rs) simp_all

lemma flatMap_rows_InrD:
  "flatMap_rows p rows = Inr ls \<Longrightarrow> None \<notin> set rows \<and> (rows = [] \<or> p \<noteq> None)"
  by (induction p rows arbitrary: ls rule: flatMap_rows.induct) (auto split: option.splits sum.splits)

lemma repository_cells_concat:
  "repository_cells (concat (map (\<lambda>r. [Cells (g r), Explanation (h r)]) rs)) =
     map (\<lambda>r. col_repository (g r)) rs"
  by (induction rs) simp_all

lemma directory_cells_concat:
  "directory_cells (concat (map (\<lambda>r. [Cells (g r), Explanation (h r)]) rs)) =
     map (\<lambda>r. col_directory (g r)) rs"
  by (induction rs) simp_all

lemma fold_update_urls:
  "fold (\<lambda>d a. update_commonRepositoryPrefix a (url d)) dirs None =
     commonRepositoryPrefix_of (map url dirs)"
  by (simp add: commonRepositoryPrefix_of_def fold_map comp_def)

lemma commonRepositoryPrefix_of_prefix:
  assumes "commonRepositoryPrefix_of urls = Some q" and "u \<in> set urls"
  shows "prefix q u"
proof -
  from assms(2) have "urls \<noteq> []" by auto
  from commonRepositoryPrefix_of_prefixes [OF this] assms(1)
  have "\<And>p. prefix p q \<longleftrightarrow> (\<forall>u \<in> set urls. prefix p u)" by auto
  from this [of q] assms(2) show ?thesis by simp
qed

lemma commonRepositoryPrefix_of_empty_url:
  assumes "[] \<in> set urls"
  shows "commonRepositoryPrefix_of urls = Some []"
proof -
  from assms have "urls \<noteq> []" by auto
  from commonRepositoryPrefix_of_prefixes [OF this] obtain r where
    r: "commonRepositoryPrefix_of urls = Some r" "\<And>p. prefix p r \<longleftrightarrow> (\<forall>u \<in> set urls. prefix p u)"
    by blast
  from r(2) [of r] assms have "prefix r []" by auto
  with r(1) show ?thesis by simp
qed

lemma status_all_resolve:
  assumes dirs: "findGit [] (tree w) = Inr dirs"
    and ok: "\<forall>d \<in> set dirs. status_resolves (git w d)"
  shows "\<exists>lines. status w =
           \<lparr>printed = Some (lines, commonRepositoryPrefix_of (map (\<lambda>d. remote_url (git w d)) dirs)),
            errors = [], returned = Inr 0\<rparr>
         \<and> directory_cells lines = dirs
         \<and> (\<forall>q. commonRepositoryPrefix_of (map (\<lambda>d. remote_url (git w d)) dirs) = Some q \<longrightarrow>
               repository_cells lines = map (\<lambda>d. drop (length q) (remote_url (git w d))) dirs)"
proof -
  let ?url = "\<lambda>d. remote_url (git w d)"
  let ?f = "\<lambda>path. status_repo path (git w path)"
  define R where "R d = projr (fst (?f d None))" for d
  have R: "fst (?f d None) = Inr (R d) \<and> col_repository (R d) = ?url d \<and> col_directory (R d) = d"
    if "d \<in> set dirs" for d
    using status_repo_cases [of "git w d" d None] ok that by (auto simp: R_def)
  from ok have all: "filter (\<lambda>d. status_resolves (git w d)) dirs = dirs"
    and none: "filter (\<lambda>d. \<not> status_resolves (git w d)) dirs = []"
    by (simp_all add: filter_empty_conv)
  have rows: "map (\<lambda>d. case fst (?f d None) of Inr r \<Rightarrow> Some r | Inl m \<Rightarrow> None) dirs =
      map Some (map R dirs)"
    using R by simp
  have run: "run_tasks ?f dirs None =
      (map Some (map R dirs), commonRepositoryPrefix_of (map ?url dirs), [])"
    unfolding run_tasks_status all none rows fold_update_urls by simp
  show ?thesis
  proof (cases "dirs = []")
    case True
    then show ?thesis
      by (simp add: status_def forEachRepo_def dirs commonRepositoryPrefix_of_Nil)
  next
    case False
    then have "map ?url dirs \<noteq> []" by simp
    from commonRepositoryPrefix_of_prefixes [OF this] obtain q where
      q: "commonRepositoryPrefix_of (map ?url dirs) = Some q" by blast
    let ?lines = "concat (map (\<lambda>r. [Cells (r\<lparr>col_repository := drop (length q) (col_repository r)\<rparr>),
                             Explanation (col_action r)]) (map R dirs))"
    have fm: "flatMap_rows (Some q) (map Some (map R dirs)) = Inr ?lines"
      by (rule flatMap_rows_Some)
    have st: "status w = \<lparr>printed = Some (?lines, Some q), errors = [], returned = Inr 0\<rparr>"
      unfolding status_def forEachRepo_def dirs sum.case run q prod.case fm by (rule refl)
    have dc: "directory_cells ?lines = dirs"
      unfolding directory_cells_concat using R by (simp add: map_idI)
    have rc: "repository_cells ?lines = map (\<lambda>d. drop (length q) (?url d)) dirs"
      unfolding repository_cells_concat using R by simp
    from st dc rc q show ?thesis by simp
  qed
qed

lemma status_some_rejects:
  assumes dirs: "findGit [] (tree w) = Inr dirs"
    and d: "d \<in> set dirs" "\<not> status_resolves (git w d)"
  shows "status w =
           \<lparr>printed = None,
            errors = map (\<lambda>d. (d, message (git_status (git w d))))
                       (filter (\<lambda>d. \<not> status_resolves (git w d)) dirs),
            returned = Inl TypeError\<rparr>"
proof -
  let ?f = "\<lambda>path. status_repo path (git w path)"
  from status_repo_cases [of "git w d" d None] d(2)
  have "fst (?f d None) = Inl (message (git_status (git w d)))" by auto
  with d(1) have "None \<in> set (map (\<lambda>d. case fst (?f d None) of Inr r \<Rightarrow> Some r | Inl m \<Rightarrow> None) dirs)"
    by (force simp: image_iff)
  from flatMap_rows_None [OF this] show ?thesis
    by (simp add: status_def forEachRepo_def dirs run_tasks_status)
qed

lemma status_printed_resolves:
  assumes dirs: "findGit [] (tree w) = Inr dirs" and p: "printed (status w) = Some x"
  shows "\<forall>d \<in> set dirs. status_resolves (git w d)"
proof (rule ccontr)
  assume "\<not> ?thesis"
  then obtain d where "d \<in> set dirs" "\<not> status_resolves (git w d)" by blast
  from status_some_rejects [OF dirs this] p show False by simp
qed

lemma findGit_example_worlds:
  "findGit [] (tree example_world) = Inr [[''a''], [''b'']]"
  "findGit [] (tree example_world_no_remote) = Inr [[''a''], [''b''], [''c'']]"
  "findGit [] (tree example_world_failure) = Inr [[''a''], [''b'']]"
  by (simp_all add: example_world_def example_world_no_remote_def example_world_failure_def
      findGit_Dir findGit_git basename_def join_def dirname_def)

lemma trim_url [simp]:
  "trim ''git@host:org/a.git'' = ''git@host:org/a.git''"
  "trim ''git@host:org/b.git'' = ''git@host:org/b.git''"
  "trim [] = []"
  by (simp_all add: trim_def isWhiteSpace_def)

text \<open>
  Claim C4, as stated, fails: a repository with an empty remote URL does affect
  the prefix. With the remote URLs \<^verbatim>\<open>git@host:org/a.git\<close>, \<^verbatim>\<open>git@host:org/b.git\<close>
  and one repository without a remote, \<^verbatim>\<open>status\<close> prints the empty prefix and the
  full URLs, where the reduction over the non-empty URLs is \<^verbatim>\<open>git@host:org/\<close>.
\<close>

theorem empty_remote_url_counterexample:
  "remote_url (git example_world_no_remote [''a'']) = ''git@host:org/a.git''
   \<and> remote_url (git example_world_no_remote [''b'']) = ''git@host:org/b.git''
   \<and> remote_url (git example_world_no_remote [''c'']) = []
   \<and> map_option snd (printed (status example_world_no_remote)) = Some (Some [])
   \<and> map_option (repository_cells \<circ> fst) (printed (status example_world_no_remote)) =
        Some [''git@host:org/a.git'', ''git@host:org/b.git'', []]
   \<and> spec_CommonPrefix [''git@host:org/a.git'', ''git@host:org/b.git'', []] = Some ''git@host:org/''"
proof -
  let ?w = example_world_no_remote
  have u: "remote_url (git ?w [''a'']) = ''git@host:org/a.git''"
    "remote_url (git ?w [''b'']) = ''git@host:org/b.git''"
    "remote_url (git ?w [''c'']) = []"
    by (simp_all add: example_world_no_remote_def remote_url_def example_io_def)
  have ok: "\<forall>d \<in> set [[''a''], [''b''], [''c'']]. status_resolves (git ?w d)"
    by (simp add: example_world_no_remote_def status_resolves_def example_io_def)
  have p: "commonRepositoryPrefix_of (map (\<lambda>d. remote_url (git ?w d)) [[''a''], [''b''], [''c'']]) = Some []"
    by (rule commonRepositoryPrefix_of_empty_url) (simp add: u)
  from status_all_resolve [OF findGit_example_worlds(2) ok] obtain lines where
    st: "printed (status ?w) = Some (lines, Some [])"
    and rc: "repository_cells lines =
      map (\<lambda>d. drop (length ([] :: string)) (remote_url (git ?w d))) [[''a''], [''b''], [''c'']]"
    unfolding p by auto
  have spec: "spec_CommonPrefix [''git@host:org/a.git'', ''git@host:org/b.git'', []] = Some ''git@host:org/''"
    by (simp add: spec_CommonPrefix_def commonRepositoryPrefix_of_def
        update_commonRepositoryPrefix_def commonPrefix_longest)
  from u st rc spec show ?thesis by simp
qed

text \<open>
  Claim C4, amended. When \<^verbatim>\<open>status\<close> prints its table, the prefix it prints is
  the pairwise reduction by \<open>commonPrefix\<close> over the remote URLs of all the
  repositories found, the empty ones included, so that one empty remote URL
  makes the prefix empty; the table has the repositories in the order found, and
  the repository cell of each is its remote URL with the prefix removed (the
  prefix followed by the cell is the URL). The table is printed when the status
  query of every repository resolves. For \<^verbatim>\<open>git@host:org/a.git\<close> and
  \<^verbatim>\<open>git@host:org/b.git\<close> the prefix is \<^verbatim>\<open>git@host:org/\<close>.
\<close>

theorem status_prefix_over_all_remote_urls:
  "(findGit [] (tree w) = Inr dirs \<and> printed (status w) = Some (lines, p) \<longrightarrow>
      p = commonRepositoryPrefix_of (map (\<lambda>d. remote_url (git w d)) dirs)
      \<and> directory_cells lines = dirs
      \<and> (\<forall>q. p = Some q \<longrightarrow>
            repository_cells lines = map (\<lambda>d. drop (length q) (remote_url (git w d))) dirs
            \<and> (\<forall>d \<in> set dirs. q @ drop (length q) (remote_url (git w d)) = remote_url (git w d))))
   \<and> (findGit [] (tree w) = Inr dirs \<and> (\<forall>d \<in> set dirs. status_resolves (git w d)) \<longrightarrow>
        (\<exists>lines p. printed (status w) = Some (lines, p)))
   \<and> ([] \<in> set urls \<longrightarrow> commonRepositoryPrefix_of urls = Some [])
   \<and> commonRepositoryPrefix_of [''git@host:org/a.git'', ''git@host:org/b.git''] = Some ''git@host:org/''"
proof -
  let ?url = "\<lambda>d. remote_url (git w d)"
  have 1: "p = commonRepositoryPrefix_of (map ?url dirs)
      \<and> directory_cells lines = dirs
      \<and> (\<forall>q. p = Some q \<longrightarrow>
            repository_cells lines = map (\<lambda>d. drop (length q) (?url d)) dirs
            \<and> (\<forall>d \<in> set dirs. q @ drop (length q) (?url d) = ?url d))"
    if dirs: "findGit [] (tree w) = Inr dirs" and pr: "printed (status w) = Some (lines, p)"
  proof -
    from status_all_resolve [OF dirs status_printed_resolves [OF dirs pr]] pr
    have a: "p = commonRepositoryPrefix_of (map ?url dirs)" "directory_cells lines = dirs"
      and b: "\<And>q. p = Some q \<Longrightarrow>
                repository_cells lines = map (\<lambda>d. drop (length q) (?url d)) dirs"
      by auto
    have "q @ drop (length q) (?url d) = ?url d" if "p = Some q" "d \<in> set dirs" for q d
    proof -
      from that a(1) have "prefix q (?url d)"
        by (intro commonRepositoryPrefix_of_prefix [of "map ?url dirs"]) auto
      then show ?thesis by (auto simp: prefix_def)
    qed
    with a b show ?thesis by blast
  qed
  have 2: "\<exists>lines p. printed (status w) = Some (lines, p)"
    if "findGit [] (tree w) = Inr dirs" "\<forall>d \<in> set dirs. status_resolves (git w d)"
    using status_all_resolve [OF that] by auto
  have 3: "commonRepositoryPrefix_of [''git@host:org/a.git'', ''git@host:org/b.git''] = Some ''git@host:org/''"
    by (simp add: commonRepositoryPrefix_of_def update_commonRepositoryPrefix_def commonPrefix_longest)
  from 1 2 3 commonRepositoryPrefix_of_empty_url [of urls] show ?thesis by blast
qed

theorem status_prefix_over_all_remote_urls_witness:
  "findGit [] (tree example_world) = Inr [[''a''], [''b'']]
   \<and> status_resolves (git example_world [''a'']) \<and> status_resolves (git example_world [''b''])
   \<and> remote_url (git example_world [''a'']) = ''git@host:org/a.git''
   \<and> remote_url (git example_world [''b'']) = ''git@host:org/b.git''
   \<and> (\<exists>lines. printed (status example_world) = Some (lines, Some ''git@host:org/'')
         \<and> directory_cells lines = [[''a''], [''b'']]
         \<and> repository_cells lines = [''a.git'', ''b.git''])
   \<and> [] \<in> set [''git@host:org/a.git'', []]
   \<and> commonRepositoryPrefix_of [''git@host:org/a.git'', []] = Some []"
proof -
  let ?w = example_world
  note d = findGit_example_worlds(1)
  have ok: "status_resolves (git ?w [''a''])" "status_resolves (git ?w [''b''])"
    by (simp_all add: example_world_def status_resolves_def example_io_def)
  have u: "remote_url (git ?w [''a'']) = ''git@host:org/a.git''"
    "remote_url (git ?w [''b'']) = ''git@host:org/b.git''"
    by (simp_all add: example_world_def remote_url_def example_io_def)
  have e: "[] \<in> set [''git@host:org/a.git'', []]" by simp
  from ok have okall: "\<forall>d \<in> set [[''a''], [''b'']]. status_resolves (git ?w d)" by simp
  from status_prefix_over_all_remote_urls
    [of ?w "[[''a''], [''b'']]" "[]" None "[''git@host:org/a.git'', []]"] d okall e
  have ex: "\<exists>lines p. printed (status ?w) = Some (lines, p)"
    and z: "commonRepositoryPrefix_of [''git@host:org/a.git'', []] = Some []"
    and c: "commonRepositoryPrefix_of [''git@host:org/a.git'', ''git@host:org/b.git''] = Some ''git@host:org/''"
    by blast+
  from ex obtain lines p where pr: "printed (status ?w) = Some (lines, p)" by blast
  from status_prefix_over_all_remote_urls
    [of ?w "[[''a''], [''b'']]" lines p "[''git@host:org/a.git'', []]"] d pr
  have 1: "p = commonRepositoryPrefix_of (map (\<lambda>d. remote_url (git ?w d)) [[''a''], [''b'']])"
    and dc: "directory_cells lines = [[''a''], [''b'']]"
    and 3: "\<And>q. p = Some q \<Longrightarrow>
            repository_cells lines = map (\<lambda>d. drop (length q) (remote_url (git ?w d))) [[''a''], [''b'']]"
    by blast+
  from 1 have p: "p = Some ''git@host:org/''" by (simp add: u c)
  from 3 [OF p] have rc: "repository_cells lines = [''a.git'', ''b.git'']" by (simp add: u)
  from d ok u pr p dc rc e z show ?thesis by blast
qed

lemma status_rejected_repository_aborts:
  assumes "findGit [] (tree w) = Inr dirs" and "d \<in> set dirs"
    and "git_status (git w d) = Rejected msg out"
  shows "printed (status w) = None \<and> returned (status w) = Inl TypeError
         \<and> (d, msg) \<in> set (errors (status w))"
proof -
  from assms(3) have no: "\<not> status_resolves (git w d)" by (simp add: status_resolves_def)
  from assms(2,3) no
  have "(d, msg) \<in> set (map (\<lambda>d. (d, message (git_status (git w d))))
                       (filter (\<lambda>d. \<not> status_resolves (git w d)) dirs))"
    by (force simp: image_iff)
  then show ?thesis unfolding status_some_rejects [OF assms(1,2) no] by simp
qed

lemma main_status:
  "main w b (Some ''status'') args =
     (case returned (status w) of
        Inl e \<Rightarrow> \<lparr>callee = Own CmdStatus, reported = Some e, exitCode = Num 1\<rparr>
      | Inr n \<Rightarrow> \<lparr>callee = Own CmdStatus, reported = None, exitCode = Num n\<rparr>)"
  by (simp add: main_def commands_get_def call_def split: sum.splits)

text \<open>
  Claim C2 does not hold of the code. With two repositories, the second of which
  rejects the status query, \<^verbatim>\<open>forEachRepo\<close> catches the error and writes the path
  and the message to the error stream, but its result holds \<^verbatim>\<open>undefined\<close> for
  that repository, on which the \<^verbatim>\<open>flatMap\<close> of \<^verbatim>\<open>status\<close> throws: no table is
  printed, not even the row of the first repository, and the process ends with
  exit code 1.
\<close>

theorem status_aborts_on_failed_repository:
  "findGit [] (tree example_world_failure) = Inr [[''a''], [''b'']]
   \<and> status_resolves (git example_world_failure [''a''])
   \<and> git_status (git example_world_failure [''b'']) = Rejected ''permission denied'' []
   \<and> status example_world_failure =
        \<lparr>printed = None, errors = [([''b''], ''permission denied'')], returned = Inl TypeError\<rparr>
   \<and> main example_world_failure example_behaviour (Some ''status'') [] =
        \<lparr>callee = Own CmdStatus, reported = Some TypeError, exitCode = Num 1\<rparr>"
proof -
  let ?w = example_world_failure
  note d = findGit_example_worlds(3)
  have a: "status_resolves (git ?w [''a''])"
    by (simp add: example_world_failure_def status_resolves_def example_io_def)
  have b: "git_status (git ?w [''b'']) = Rejected ''permission denied'' []"
    by (simp add: example_world_failure_def)
  then have nb: "\<not> status_resolves (git ?w [''b''])" by (simp add: status_resolves_def)
  have m: "[''b''] \<in> set [[''a''], [''b'']]" by simp
  have st: "status ?w =
        \<lparr>printed = None, errors = [([''b''], ''permission denied'')], returned = Inl TypeError\<rparr>"
    unfolding status_some_rejects [OF d m nb] using a nb b by simp
  have "main ?w example_behaviour (Some ''status'') [] =
        \<lparr>callee = Own CmdStatus, reported = Some TypeError, exitCode = Num 1\<rparr>"
    unfolding main_status st by simp
  with d a b st show ?thesis by blast
qed

lemma main_unknown_is_help:
  "commands_get command = None \<Longrightarrow> callee (main w b command args) = Own CmdHelp"
  by (simp add: main_def Let_def split: sum.splits jsvalue.splits)

lemma status_returns_0: "returned (status w) = Inr n \<Longrightarrow> n = 0"
  by (auto simp: status_def split: sum.splits prod.splits)

lemma call_Own: "call w b (Own c) args = Inr v \<Longrightarrow> v = Undefined \<or> v = Num 0"
  by (cases c) (auto simp: call_def split: sum.splits option.splits dest: status_returns_0)

lemma main_cases:
  "(\<exists>e. call w b (callee (main w b command args)) args = Inl e
        \<and> reported (main w b command args) = Some e
        \<and> exitCode (main w b command args) = Num 1)
   \<or> (call w b (callee (main w b command args)) args = Inr Other
        \<and> reported (main w b command args) = Some InvalidArgType
        \<and> exitCode (main w b command args) = Num 1)
   \<or> (\<exists>v. call w b (callee (main w b command args)) args = Inr v \<and> v \<noteq> Other
        \<and> reported (main w b command args) = None
        \<and> exitCode (main w b command args) = (case v of Undefined \<Rightarrow> Num 0 | _ \<Rightarrow> v))"
proof -
  define f where "f = (case commands_get command of Some p \<Rightarrow> p | None \<Rightarrow> Own CmdHelp)"
  show ?thesis
  proof (cases "call w b f args")
    case (Inl e)
    then have "main w b command args = \<lparr>callee = f, reported = Some e, exitCode = Num 1\<rparr>"
      by (simp add: main_def f_def)
    with Inl show ?thesis by simp
  next
    case (Inr v)
    show ?thesis
    proof (cases v)
      case Undefined
      with Inr have "main w b command args = \<lparr>callee = f, reported = None, exitCode = Num 0\<rparr>"
        by (simp add: main_def f_def)
      with Inr Undefined show ?thesis by simp
    next
      case (Num code)
      with Inr have "main w b command args = \<lparr>callee = f, reported = None, exitCode = Num code\<rparr>"
        by (simp add: main_def f_def)
      with Inr Num show ?thesis by simp
    next
      case Other
      with Inr have "main w b command args =
          \<lparr>callee = f, reported = Some InvalidArgType, exitCode = Num 1\<rparr>"
        by (simp add: main_def f_def)
      with Inr Other show ?thesis by simp
    qed
  qed
qed

lemma main_exit_codes:
  "(reported (main w b command args) \<noteq> None \<longrightarrow> exitCode (main w b command args) = Num 1)
   \<and> (reported (main w b command args) = None \<and> callee (main w b command args) = Own c \<longrightarrow>
        exitCode (main w b command args) = Num 0)"
  using main_cases [of w b command args] call_Own [of w b c args] by auto

text \<open>
  Claim C8 does not hold of the code for every name: \<^verbatim>\<open>__proto__\<close> and the
  names of the methods of \<^verbatim>\<open>Object.prototype\<close> are not commands, yet
  \<^verbatim>\<open>commands[command]\<close> finds them, so \<^verbatim>\<open>help\<close> is not called. With \<^verbatim>\<open>__proto__\<close>
  the call throws a \<^verbatim>\<open>TypeError\<close>, which is printed, and the exit code is 1.
  With \<^verbatim>\<open>constructor\<close> the inherited method is called and returns an object,
  which \<^verbatim>\<open>process.exitCode\<close> refuses: again an error and exit code 1. A name
  that is no property of the object, and a missing name, do select \<^verbatim>\<open>help\<close>,
  with exit code 0.
\<close>

theorem inherited_property_is_not_help:
  "main example_world example_behaviour (Some ''__proto__'') [] =
     \<lparr>callee = PrototypeObject, reported = Some TypeError, exitCode = Num 1\<rparr>
   \<and> main example_world example_behaviour (Some ''constructor'') [] =
     \<lparr>callee = PrototypeMethod ''constructor'', reported = Some InvalidArgType,
      exitCode = Num 1\<rparr>
   \<and> main example_world example_behaviour (Some ''frobnicate'') [] =
     \<lparr>callee = Own CmdHelp, reported = None, exitCode = Num 0\<rparr>
   \<and> main example_world example_behaviour None [] =
     \<lparr>callee = Own CmdHelp, reported = None, exitCode = Num 0\<rparr>"
  by (simp add: main_def commands_get_def call_def example_behaviour_def
      Object_prototype_methods_def)

end
